theory Spec2Isabelle
  imports Complex_Main "HOL-Library.Word"
begin

unbundle bit_operations_syntax

section \<open>Move values and the transaction context\<close>

type_synonym u8 = "8 word"
type_synonym u64 = "64 word"
type_synonym address = "256 word"

text \<open>
  A Move transaction either commits or aborts. An \<open>assert!\<close> that fails aborts with
  its code; integer arithmetic aborts on overflow and on underflow.
\<close>

datatype error = Abort u64 | ArithmeticError

definition add_u64 :: "u64 \<Rightarrow> u64 \<Rightarrow> error + u64" where
  "add_u64 a b = (if unat a + unat b < 2 ^ 64 then Inr (a + b) else Inl ArithmeticError)"

definition sub_u64 :: "u64 \<Rightarrow> u64 \<Rightarrow> error + u64" where
  "sub_u64 a b = (if b \<le> a then Inr (a - b) else Inl ArithmeticError)"

text \<open>
  \<open>object::new(ctx)\<close> of the Sui framework derives a fresh object id from the
  transaction digest and the number of ids the transaction has created so far. The id is
  kept as that pair, so that two ids are equal exactly when both components are.
\<close>

type_synonym ID = "u8 list \<times> u64"

record TxContext =
  sender :: address
  tx_hash :: "u8 list"
  ids_created :: u64

definition object_new :: "TxContext \<Rightarrow> ID \<times> TxContext" where
  "object_new ctx = ((tx_hash ctx, ids_created ctx), ctx\<lparr>ids_created := ids_created ctx + 1\<rparr>)"

record Clock =
  timestamp_ms :: u64

section \<open>intent\_registry.move\<close>

subsection \<open>Constants and error codes\<close>

definition STATUS_ACTIVE :: u8 where "STATUS_ACTIVE = 0"
definition STATUS_EXECUTING :: u8 where "STATUS_EXECUTING = 1"
definition STATUS_EXECUTED :: u8 where "STATUS_EXECUTED = 2"
definition STATUS_CANCELLED :: u8 where "STATUS_CANCELLED = 3"
definition STATUS_EXPIRED :: u8 where "STATUS_EXPIRED = 4"
definition STATUS_FAILED :: u8 where "STATUS_FAILED = 5"

definition TRIGGER_PRICE_BELOW :: u8 where "TRIGGER_PRICE_BELOW = 0"
definition TRIGGER_PRICE_ABOVE :: u8 where "TRIGGER_PRICE_ABOVE = 1"

definition ENotOwner :: u64 where "ENotOwner = 0"
definition EInvalidStatus :: u64 where "EInvalidStatus = 1"
definition EIntentExpired :: u64 where "EIntentExpired = 2"
definition EAlreadyExecuting :: u64 where "EAlreadyExecuting = 3"
definition EInvalidTriggerType :: u64 where "EInvalidTriggerType = 5"

subsection \<open>Types\<close>

record IntentRegistry =
  registry_uid :: ID
  total_intents :: u64
  active_intents :: u64
  executed_intents :: u64

record Intent =
  intent_uid :: ID
  owner :: address
  encrypted_data :: "u8 list"
  created_at :: u64
  expires_at :: u64
  status :: u8
  trigger_type :: u8
  trigger_value :: u64
  pair_hash :: "u8 list"
  executed_at :: "u64 option"
  executed_price :: "u64 option"
  tx_digest :: "u8 list option"


datatype Event =
  IntentCreated ID address u8 u64 "u8 list" u64
  | IntentCancelled ID u64
  | IntentExecuting ID u64
  | IntentExecuted ID u64 u64
  | IntentFailed ID u64 "u8 list"

subsection \<open>Init and user functions\<close>

definition init :: "TxContext \<Rightarrow> IntentRegistry \<times> TxContext" where
  "init ctx =
     (let (uid, ctx') = object_new ctx
      in (\<lparr>registry_uid = uid, total_intents = 0, active_intents = 0, executed_intents = 0\<rparr>,
          ctx'))"

definition create_intent ::
  "IntentRegistry \<Rightarrow> u8 list \<Rightarrow> u8 \<Rightarrow> u64 \<Rightarrow> u8 list \<Rightarrow> u64 \<Rightarrow> Clock \<Rightarrow> TxContext
     \<Rightarrow> error + (IntentRegistry \<times> Intent \<times> TxContext \<times> Event list)" where
  "create_intent registry encrypted_data' trigger_type' trigger_value' pair_hash' expires_at'
       clock ctx =
     (let now = timestamp_ms clock in
      if \<not> now < expires_at' then Inl (Abort EIntentExpired)
      else if \<not> trigger_type' \<le> TRIGGER_PRICE_ABOVE then Inl (Abort EInvalidTriggerType)
      else
        let (uid, ctx') = object_new ctx;
            intent = \<lparr>intent_uid = uid, owner = sender ctx,
              encrypted_data = encrypted_data', created_at = now, expires_at = expires_at',
              status = STATUS_ACTIVE, trigger_type = trigger_type',
              trigger_value = trigger_value', pair_hash = pair_hash',
              executed_at = None, executed_price = None, tx_digest = None\<rparr>
        in case add_u64 (total_intents registry) 1 of
             Inl e \<Rightarrow> Inl e
           | Inr total' \<Rightarrow>
              (case add_u64 (active_intents registry) 1 of
                 Inl e \<Rightarrow> Inl e
               | Inr active' \<Rightarrow>
                   Inr (registry\<lparr>total_intents := total', active_intents := active'\<rparr>,
                        intent, ctx',
                        [IntentCreated uid (sender ctx) trigger_type' trigger_value'
                           pair_hash' expires_at'])))"

definition cancel_intent ::
  "IntentRegistry \<Rightarrow> Intent \<Rightarrow> Clock \<Rightarrow> TxContext
     \<Rightarrow> error + (IntentRegistry \<times> Intent \<times> Event list)" where
  "cancel_intent registry intent clock ctx =
     (if sender ctx \<noteq> owner intent then Inl (Abort ENotOwner)
      else if status intent \<noteq> STATUS_ACTIVE then Inl (Abort EInvalidStatus)
      else case sub_u64 (active_intents registry) 1 of
             Inl e \<Rightarrow> Inl e
           | Inr active' \<Rightarrow>
               Inr (registry\<lparr>active_intents := active'\<rparr>,
                    intent\<lparr>status := STATUS_CANCELLED\<rparr>,
                    [IntentCancelled (intent_uid intent) (timestamp_ms clock)]))"

subsection \<open>View functions\<close>

definition get_status :: "Intent \<Rightarrow> u8" where
  "get_status intent = status intent"

definition is_active :: "Intent \<Rightarrow> bool" where
  "is_active intent \<longleftrightarrow> status intent = STATUS_ACTIVE"

definition is_expired :: "Intent \<Rightarrow> Clock \<Rightarrow> bool" where
  "is_expired intent clock \<longleftrightarrow> expires_at intent \<le> timestamp_ms clock"

definition get_stats :: "IntentRegistry \<Rightarrow> u64 \<times> u64 \<times> u64" where
  "get_stats registry = (total_intents registry, active_intents registry, executed_intents registry)"

subsection \<open>Enclave functions\<close>

definition mark_executing :: "Intent \<Rightarrow> Clock \<Rightarrow> error + (Intent \<times> Event list)" where
  "mark_executing intent clock =
     (let now = timestamp_ms clock in
      if status intent \<noteq> STATUS_ACTIVE then Inl (Abort EAlreadyExecuting)
      else if \<not> now < expires_at intent then Inl (Abort EIntentExpired)
      else Inr (intent\<lparr>status := STATUS_EXECUTING\<rparr>,
                [IntentExecuting (intent_uid intent) now]))"

definition mark_executed ::
  "IntentRegistry \<Rightarrow> Intent \<Rightarrow> u64 \<Rightarrow> u8 list \<Rightarrow> Clock
     \<Rightarrow> error + (IntentRegistry \<times> Intent \<times> Event list)" where
  "mark_executed registry intent executed_price' tx_digest' clock =
     (if status intent \<noteq> STATUS_EXECUTING then Inl (Abort EInvalidStatus)
      else
        let now = timestamp_ms clock;
            intent' = intent\<lparr>status := STATUS_EXECUTED, executed_at := Some now,
              executed_price := Some executed_price', tx_digest := Some tx_digest'\<rparr>
        in case sub_u64 (active_intents registry) 1 of
             Inl e \<Rightarrow> Inl e
           | Inr active' \<Rightarrow>
              (case add_u64 (executed_intents registry) 1 of
                 Inl e \<Rightarrow> Inl e
               | Inr executed' \<Rightarrow>
                   Inr (registry\<lparr>active_intents := active', executed_intents := executed'\<rparr>,
                        intent',
                        [IntentExecuted (intent_uid intent) now executed_price'])))"

definition mark_failed ::
  "IntentRegistry \<Rightarrow> Intent \<Rightarrow> u8 list \<Rightarrow> Clock
     \<Rightarrow> error + (IntentRegistry \<times> Intent \<times> Event list)" where
  "mark_failed registry intent reason clock =
     (if status intent \<noteq> STATUS_EXECUTING then Inl (Abort EInvalidStatus)
      else case sub_u64 (active_intents registry) 1 of
             Inl e \<Rightarrow> Inl e
           | Inr active' \<Rightarrow>
               Inr (registry\<lparr>active_intents := active'\<rparr>,
                    intent\<lparr>status := STATUS_FAILED\<rparr>,
                    [IntentFailed (intent_uid intent) (timestamp_ms clock) reason]))"

definition reset_to_active :: "Intent \<Rightarrow> error + Intent" where
  "reset_to_active intent =
     (if status intent \<noteq> STATUS_EXECUTING then Inl (Abort EInvalidStatus)
      else Inr (intent\<lparr>status := STATUS_ACTIVE\<rparr>))"

subsection \<open>Admin functions\<close>


section \<open>The ledger: shared objects and transactions\<close>

text \<open>
  The module shares one registry (\<open>init\<close> runs once, when the package is published) and
  one object per intent. The ledger holds the registry and the intents in creation order;
  a transaction names an intent by its position. A transaction that aborts, or names an
  intent that does not exist, leaves the ledger as it was.
\<close>

record Ledger =
  registry :: IntentRegistry
  intents :: "Intent list"

datatype Call =
  CreateIntent "u8 list" u8 u64 "u8 list" u64
  | CancelIntent nat
  | MarkExecuting nat
  | MarkExecuted nat u64 "u8 list"
  | MarkFailed nat "u8 list"
  | ResetToActive nat

record Tx =
  tx_context :: TxContext
  tx_clock :: Clock
  tx_call :: Call

definition genesis :: "TxContext \<Rightarrow> Ledger" where
  "genesis ctx = \<lparr>registry = fst (init ctx), intents = []\<rparr>"

fun call :: "Ledger \<Rightarrow> TxContext \<Rightarrow> Clock \<Rightarrow> Call \<Rightarrow> error + Ledger" where
  "call l ctx clock (CreateIntent data tt tv ph ex) =
     (case create_intent (registry l) data tt tv ph ex clock ctx of
        Inl e \<Rightarrow> Inl e
      | Inr (r, i, _, _) \<Rightarrow> Inr (l\<lparr>registry := r, intents := intents l @ [i]\<rparr>))"
| "call l ctx clock (CancelIntent k) =
     (case cancel_intent (registry l) (intents l ! k) clock ctx of
        Inl e \<Rightarrow> Inl e
      | Inr (r, i, _) \<Rightarrow> Inr (l\<lparr>registry := r, intents := (intents l)[k := i]\<rparr>))"
| "call l ctx clock (MarkExecuting k) =
     (case mark_executing (intents l ! k) clock of
        Inl e \<Rightarrow> Inl e
      | Inr (i, _) \<Rightarrow> Inr (l\<lparr>intents := (intents l)[k := i]\<rparr>))"
| "call l ctx clock (MarkExecuted k price digest) =
     (case mark_executed (registry l) (intents l ! k) price digest clock of
        Inl e \<Rightarrow> Inl e
      | Inr (r, i, _) \<Rightarrow> Inr (l\<lparr>registry := r, intents := (intents l)[k := i]\<rparr>))"
| "call l ctx clock (MarkFailed k reason) =
     (case mark_failed (registry l) (intents l ! k) reason clock of
        Inl e \<Rightarrow> Inl e
      | Inr (r, i, _) \<Rightarrow> Inr (l\<lparr>registry := r, intents := (intents l)[k := i]\<rparr>))"
| "call l ctx clock (ResetToActive k) =
     (case reset_to_active (intents l ! k) of
        Inl e \<Rightarrow> Inl e
      | Inr i \<Rightarrow> Inr (l\<lparr>intents := (intents l)[k := i]\<rparr>))"

fun target :: "Call \<Rightarrow> nat option" where
  "target (CreateIntent _ _ _ _ _) = None"
| "target (CancelIntent k) = Some k"
| "target (MarkExecuting k) = Some k"
| "target (MarkExecuted k _ _) = Some k"
| "target (MarkFailed k _) = Some k"
| "target (ResetToActive k) = Some k"

definition well_addressed :: "Ledger \<Rightarrow> Call \<Rightarrow> bool" where
  "well_addressed l c = (case target c of None \<Rightarrow> True | Some k \<Rightarrow> k < length (intents l))"

definition exec :: "Ledger \<Rightarrow> Tx \<Rightarrow> Ledger" where
  "exec l tx =
     (if well_addressed l (tx_call tx)
      then (case call l (tx_context tx) (tx_clock tx) (tx_call tx) of Inl e \<Rightarrow> l | Inr l' \<Rightarrow> l')
      else l)"

definition run :: "Ledger \<Rightarrow> Tx list \<Rightarrow> Ledger" where
  "run l txs = foldl exec l txs"

section \<open>JavaScript values\<close>

text \<open>
  A JavaScript number is a finite value or NaN (the infinities are left out: no function
  below produces one from finite inputs, and none does arithmetic). Comparisons with NaN
  are false. A property that is absent reads as \<open>undefined\<close>, modelled by \<open>None\<close>; a number
  is falsy when it is \<open>undefined\<close>, NaN or zero.
\<close>

datatype number = NaN | Num real

definition num_le :: "number \<Rightarrow> number \<Rightarrow> bool" where
  "num_le a b = (case (a, b) of (Num x, Num y) \<Rightarrow> x \<le> y | _ \<Rightarrow> False)"

definition num_ge :: "number \<Rightarrow> number \<Rightarrow> bool" where
  "num_ge a b = (case (a, b) of (Num x, Num y) \<Rightarrow> x \<ge> y | _ \<Rightarrow> False)"

definition falsy :: "number option \<Rightarrow> bool" where
  "falsy v = (case v of None \<Rightarrow> True | Some NaN \<Rightarrow> True | Some (Num x) \<Rightarrow> x = 0)"

definition num_or :: "number option \<Rightarrow> number \<Rightarrow> number" where
  "num_or v d = (if falsy v then d else the v)"

datatype json = JNull | JBool bool | JNum number | JStr string | JObj "(string \<times> json) list"

definition jsonField :: "json \<Rightarrow> string \<Rightarrow> json option" where
  "jsonField v name = (case v of JObj fs \<Rightarrow> map_of fs name | _ \<Rightarrow> None)"

text \<open>
  A \<open>Uint8Array\<close> is a view on a buffer: it starts at \<open>byteOffset\<close> and has \<open>length\<close>
  elements. \<open>new Uint8Array(n)\<close> allocates a buffer of its own and starts at offset 0;
  \<open>new_Uint8Array bs\<close> is such an array once it holds the bytes \<open>bs\<close>.
\<close>

record Uint8Array =
  buffer :: "u8 list"
  byteOffset :: nat
  view_length :: nat

definition elements :: "Uint8Array \<Rightarrow> u8 list" where
  "elements a = take (view_length a) (drop (byteOffset a) (buffer a))"

definition new_Uint8Array :: "u8 list \<Rightarrow> Uint8Array" where
  "new_Uint8Array bs = \<lparr>buffer = bs, byteOffset = 0, view_length = length bs\<rparr>"

section \<open>The limit orders page: checking triggers\<close>

datatype Side = Buy | Sell
datatype LimitOrderType = Limit | StopLoss | TakeProfit
datatype OrderStatus = Pending | Triggered | Cancelled | Filled

record LimitOrder =
  order_id :: string
  order_pair :: string
  order_side :: Side
  order_type :: LimitOrderType
  triggerPrice :: number
  order_quantity :: number
  order_status :: OrderStatus
  order_createdAt :: number
  triggeredAt :: "number option"

text \<open>The \<open>switch\<close> of \<open>fetchAllPrices\<close> that computes \<open>shouldTrigger\<close>.\<close>

definition shouldTrigger :: "LimitOrder \<Rightarrow> number \<Rightarrow> bool" where
  "shouldTrigger order' currentPrice =
     (case order_type order' of
        Limit \<Rightarrow>
          (if order_side order' = Buy then num_le currentPrice (triggerPrice order')
           else num_ge currentPrice (triggerPrice order'))
      | StopLoss \<Rightarrow>
          (if order_side order' = Sell then num_le currentPrice (triggerPrice order')
           else num_ge currentPrice (triggerPrice order'))
      | TakeProfit \<Rightarrow>
          (if order_side order' = Sell then num_ge currentPrice (triggerPrice order')
           else num_le currentPrice (triggerPrice order')))"

text \<open>
  The function that \<open>fetchAllPrices\<close> maps over the orders; \<open>now\<close> is the value of
  \<open>new Date()\<close>. The log line it writes is not part of the order and is left out.
\<close>

definition checkTrigger :: "(string \<Rightarrow> number option) \<Rightarrow> number \<Rightarrow> LimitOrder \<Rightarrow> LimitOrder" where
  "checkTrigger newPrices now order' =
     (if order_status order' \<noteq> Pending then order'
      else if falsy (newPrices (order_pair order')) then order'
      else if shouldTrigger order' (the (newPrices (order_pair order')))
        then order'\<lparr>order_status := Triggered, triggeredAt := Some now\<rparr>
      else order')"

definition checkTriggers ::
  "(string \<Rightarrow> number option) \<Rightarrow> number \<Rightarrow> LimitOrder list \<Rightarrow> LimitOrder list" where
  "checkTriggers newPrices now prev = map (checkTrigger newPrices now) prev"

text \<open>The trigger type \<open>createOrder\<close> computes for the on-chain intent of an order.\<close>

definition createOrder_triggerType :: "LimitOrderType \<Rightarrow> Side \<Rightarrow> u8" where
  "createOrder_triggerType orderType' side' =
     (if orderType' = StopLoss \<or> (orderType' = Limit \<and> side' = Buy) then 0 else 1)"

section \<open>seal.ts: mock encryption\<close>

datatype Network = testnet | mainnet

definition SEAL_KEY_SERVERS :: "Network \<Rightarrow> string list" where
  "SEAL_KEY_SERVERS n =
     (case n of
        testnet \<Rightarrow>
          [''0x73d05d62c18d9374e3ea529e8e0ed6161da1a141a94d3f76ae3fe4e99356db75'',
           ''0xf5d14a81a982144ae441cd7d64b09027f116a468bd36e7eca494f750591623c8'',
           ''0x6068c0acb197dddbacd4746a9de7f025b2ed5a5b6c1b1ab44dade4426d141da2'']
      | mainnet \<Rightarrow> [])"

datatype IntentTriggerType = price_below | price_above
datatype IntentOrderType = market | limit_order

record IntentData =
  intentId :: string
  pair :: string
  triggerType :: IntentTriggerType
  triggerValue :: number
  orderType :: IntentOrderType
  side :: Side
  quantity :: number
  leverage :: "number option"
  slippageBps :: number
  expiresAt :: number

record ResultMetadata =
  meta_pair :: string
  meta_triggerType :: IntentTriggerType
  meta_triggerValue :: number
  meta_expiresAt :: number

record Verification =
  isRealEncryption :: bool
  encryptionMethod :: string
  threshold :: number
  keyServerCount :: number
  packageId :: string
  encryptedSize :: number
  timestamp :: number

record EncryptedIntentResult =
  encryptedBytes :: Uint8Array
  result_intentId :: string
  backupKey :: "u8 list option"
  metadata :: ResultMetadata
  verification :: Verification

record SealConfig =
  network :: Network
  policyPackageId :: string
  enclaveConfigId :: string
  config_threshold :: "number option"

text \<open>
  \<open>xorCipher\<close>, on the elements of its two arrays. With an empty key, \<open>i % key.length\<close> is NaN, \<open>key[NaN]\<close> is \<open>undefined\<close>, and
  \<open>data[i] ^ undefined\<close> is \<open>data[i]\<close>.
\<close>

definition xorCipher :: "u8 list \<Rightarrow> u8 list \<Rightarrow> u8 list" where
  "xorCipher data key =
     map (\<lambda>i. (data ! i) XOR (if key = [] then 0 else key ! (i mod length key)))
       [0..<length data]"

text \<open>
  \<open>DataView.setUint32(0, n, true)\<close> on a buffer of four bytes, and
  \<open>DataView.getUint32(0, true)\<close>, which throws a RangeError on a buffer of fewer.
\<close>

definition setUint32_le :: "nat \<Rightarrow> u8 list" where
  "setUint32_le n =
     [of_nat (n mod 256), of_nat (n div 256 mod 256), of_nat (n div 65536 mod 256),
      of_nat (n div 16777216 mod 256)]"

definition getUint32_le :: "u8 list \<Rightarrow> nat option" where
  "getUint32_le bs =
     (if length bs < 4 then None
      else Some (unat (bs ! 0) + 256 * unat (bs ! 1) + 65536 * unat (bs ! 2) +
                 16777216 * unat (bs ! 3)))"

text \<open>
  The JSON text of a value, encoded as UTF-8, is the platform's
  \<open>TextEncoder.encode(JSON.stringify(v))\<close>, and \<open>JSON.parse(TextDecoder.decode(b))\<close> reads
  it back or throws. Both are parameters of the functions below: \<open>encodeJson\<close> and
  \<open>decodeJson\<close>, the latter \<open>None\<close> where the platform throws. The random key of
  \<open>generateMockKey\<close> and the values of \<open>Date.now()\<close> are parameters as well.
\<close>

definition intentFields :: "IntentData \<Rightarrow> (string \<times> json) list" where
  "intentFields intent =
     [(''intentId'', JStr (intentId intent)),
      (''pair'', JStr (pair intent)),
      (''triggerType'',
         JStr (case triggerType intent of price_below \<Rightarrow> ''price_below''
               | price_above \<Rightarrow> ''price_above'')),
      (''triggerValue'', JNum (triggerValue intent)),
      (''orderType'',
         JStr (case orderType intent of market \<Rightarrow> ''market'' | limit_order \<Rightarrow> ''limit'')),
      (''side'', JStr (case side intent of Buy \<Rightarrow> ''buy'' | Sell \<Rightarrow> ''sell'')),
      (''quantity'', JNum (quantity intent))] @
     (case leverage intent of None \<Rightarrow> [] | Some v \<Rightarrow> [(''leverage'', JNum v)]) @
     [(''slippageBps'', JNum (slippageBps intent)),
      (''expiresAt'', JNum (expiresAt intent))]"

definition intentJson :: "IntentData \<Rightarrow> number \<Rightarrow> json" where
  "intentJson intent createdAt =
     JObj (intentFields intent @ [(''version'', JNum (Num 1)), (''createdAt'', JNum createdAt)])"

definition metadataJson :: "string \<Rightarrow> SealConfig \<Rightarrow> number \<Rightarrow> json" where
  "metadataJson intentId' config now =
     JObj [(''version'', JNum (Num 1)),
           (''intentId'', JStr intentId'),
           (''packageId'', JStr (policyPackageId config)),
           (''threshold'', JNum (num_or (config_threshold config) (Num 2))),
           (''keyServers'', JNum (Num (real (length (SEAL_KEY_SERVERS (network config)))))),
           (''timestamp'', JNum now),
           (''mock'', JBool True)]"

definition createMockEncryptedObject ::
  "(json \<Rightarrow> u8 list) \<Rightarrow> u8 list \<Rightarrow> string \<Rightarrow> SealConfig \<Rightarrow> u8 list \<Rightarrow> number
     \<Rightarrow> Uint8Array \<times> u8 list" where
  "createMockEncryptedObject encodeJson plaintext intentId' config key now =
     (let ciphertext = xorCipher plaintext key;
          metadata' = encodeJson (metadataJson intentId' config now);
          metadataLength = setUint32_le (length metadata');
          envelope = new_Uint8Array (metadataLength @ metadata' @ ciphertext)
      in (envelope, key))"

definition encryptIntentMock ::
  "(json \<Rightarrow> u8 list) \<Rightarrow> IntentData \<Rightarrow> SealConfig \<Rightarrow> u8 list \<Rightarrow> number \<Rightarrow> number \<Rightarrow> number
     \<Rightarrow> EncryptedIntentResult" where
  "encryptIntentMock encodeJson intent config key createdAt metaNow verifyNow =
     (let plaintext = encodeJson (intentJson intent createdAt);
          (encrypted, key') =
            createMockEncryptedObject encodeJson plaintext (intentId intent) config key metaNow
      in \<lparr>encryptedBytes = encrypted,
          result_intentId = intentId intent,
          backupKey = Some key',
          metadata = \<lparr>meta_pair = pair intent, meta_triggerType = triggerType intent,
            meta_triggerValue = triggerValue intent, meta_expiresAt = expiresAt intent\<rparr>,
          verification = \<lparr>isRealEncryption = False, encryptionMethod = ''mock'',
            threshold = num_or (config_threshold config) (Num 2),
            keyServerCount = Num (real (length (SEAL_KEY_SERVERS (network config)))),
            packageId = policyPackageId config,
            encryptedSize = Num (real (view_length encrypted)),
            timestamp = verifyNow\<rparr>\<rparr>)"

text \<open>
  \<open>decryptMockIntent\<close> reads the length through \<open>new DataView(encrypted.buffer)\<close>, at offset
  0 of the array's buffer, not of the array (it passes no \<open>byteOffset\<close>); \<open>slice\<close> then copies
  from the array's own elements. Every exception is caught and gives \<open>null\<close>.
\<close>

definition decryptMockIntent ::
  "(u8 list \<Rightarrow> json option) \<Rightarrow> Uint8Array \<Rightarrow> u8 list \<Rightarrow> json option" where
  "decryptMockIntent decodeJson encrypted key =
     (case getUint32_le (buffer encrypted) of
        None \<Rightarrow> None
      | Some metadataLength \<Rightarrow>
          (let ciphertext = drop (4 + metadataLength) (elements encrypted);
               plaintext = xorCipher ciphertext key
           in decodeJson plaintext))"

section \<open>Notions the claims use\<close>

text \<open>An intent the claims count as active: its status is Active or Executing.\<close>

definition counted_active :: "Intent \<Rightarrow> bool" where
  "counted_active i \<longleftrightarrow> status i = STATUS_ACTIVE \<or> status i = STATUS_EXECUTING"

definition count_active :: "Intent list \<Rightarrow> nat" where
  "count_active xs = length (filter counted_active xs)"

text \<open>
  The state machine as the specification draws it: the edges Active to Executing,
  Executing to Executed, Executing to Failed, Executing to Active (recovery), Active to
  Cancelled and Active to Expired (lazy). A status with no outgoing edge is terminal.
\<close>

definition spec_edge :: "u8 \<Rightarrow> u8 \<Rightarrow> bool" where
  "spec_edge s s' \<longleftrightarrow>
     s = STATUS_ACTIVE \<and> s' = STATUS_EXECUTING \<or>
     s = STATUS_EXECUTING \<and> s' = STATUS_EXECUTED \<or>
     s = STATUS_EXECUTING \<and> s' = STATUS_FAILED \<or>
     s = STATUS_EXECUTING \<and> s' = STATUS_ACTIVE \<or>
     s = STATUS_ACTIVE \<and> s' = STATUS_CANCELLED \<or>
     s = STATUS_ACTIVE \<and> s' = STATUS_EXPIRED"

definition spec_terminal :: "u8 \<Rightarrow> bool" where
  "spec_terminal s \<longleftrightarrow>
     s = STATUS_EXECUTED \<or> s = STATUS_CANCELLED \<or> s = STATUS_EXPIRED \<or> s = STATUS_FAILED"

text \<open>The statuses of the intent at position \<open>k\<close>, before and after each transaction of a run.\<close>

fun observed :: "Ledger \<Rightarrow> Tx list \<Rightarrow> nat \<Rightarrow> u8 list" where
  "observed l [] k = [status (intents l ! k)]"
| "observed l (tx # txs) k = status (intents l ! k) # observed (exec l tx) txs k"

text \<open>The execution fields of an intent: all three present, or all three absent.\<close>

definition execution_recorded :: "Intent \<Rightarrow> bool" where
  "execution_recorded i \<longleftrightarrow>
     executed_at i \<noteq> None \<and> executed_price i \<noteq> None \<and> tx_digest i \<noteq> None"

definition execution_empty :: "Intent \<Rightarrow> bool" where
  "execution_empty i \<longleftrightarrow>
     executed_at i = None \<and> executed_price i = None \<and> tx_digest i = None"

text \<open>
  The trigger predicate as the specification words it: PriceBelow matches when
  \<open>current_price \<le> trigger_value\<close>, PriceAbove when \<open>current_price \<ge> trigger_value\<close>.
\<close>

definition spec_trigger_matches :: "u8 \<Rightarrow> number \<Rightarrow> number \<Rightarrow> bool" where
  "spec_trigger_matches trigger_kind current_price trigger_value' =
     (if trigger_kind = TRIGGER_PRICE_BELOW then num_le current_price trigger_value'
      else if trigger_kind = TRIGGER_PRICE_ABOVE then num_ge current_price trigger_value'
      else False)"

text \<open>
  What one transaction can do to the ledger, read off the six entry points: it appends the
  intent that \<open>create_intent\<close> builds, or it replaces one intent by the result of one of the
  five other functions.
\<close>

definition created :: "Tx \<Rightarrow> Intent \<Rightarrow> bool" where
  "created tx i \<longleftrightarrow>
     (\<exists>data tt tv ph ex. tx_call tx = CreateIntent data tt tv ph ex \<and>
        timestamp_ms (tx_clock tx) < ex \<and> tt \<le> TRIGGER_PRICE_ABOVE \<and>
        i = \<lparr>intent_uid = (tx_hash (tx_context tx), ids_created (tx_context tx)),
              owner = sender (tx_context tx), encrypted_data = data,
              created_at = timestamp_ms (tx_clock tx), expires_at = ex,
              status = STATUS_ACTIVE, trigger_type = tt, trigger_value = tv,
              pair_hash = ph, executed_at = None, executed_price = None, tx_digest = None\<rparr>)"

definition moved :: "Tx \<Rightarrow> nat \<Rightarrow> Intent \<Rightarrow> Intent \<Rightarrow> bool" where
  "moved tx k i i' \<longleftrightarrow>
     tx_call tx = CancelIntent k \<and> sender (tx_context tx) = owner i \<and>
       status i = STATUS_ACTIVE \<and> i' = i\<lparr>status := STATUS_CANCELLED\<rparr> \<or>
     tx_call tx = MarkExecuting k \<and> timestamp_ms (tx_clock tx) < expires_at i \<and>
       status i = STATUS_ACTIVE \<and> i' = i\<lparr>status := STATUS_EXECUTING\<rparr> \<or>
     (\<exists>p d. tx_call tx = MarkExecuted k p d \<and> status i = STATUS_EXECUTING \<and>
       i' = i\<lparr>status := STATUS_EXECUTED, executed_at := Some (timestamp_ms (tx_clock tx)),
              executed_price := Some p, tx_digest := Some d\<rparr>) \<or>
     (\<exists>reason. tx_call tx = MarkFailed k reason) \<and> status i = STATUS_EXECUTING \<and>
       i' = i\<lparr>status := STATUS_FAILED\<rparr> \<or>
     tx_call tx = ResetToActive k \<and> status i = STATUS_EXECUTING \<and>
       i' = i\<lparr>status := STATUS_ACTIVE\<rparr>"

text \<open>The execution fields agree with the status.\<close>

definition execution_consistent :: "Intent \<Rightarrow> bool" where
  "execution_consistent i =
     (if status i = STATUS_EXECUTED then execution_recorded i else execution_empty i)"

section \<open>Concrete inputs\<close>

definition clock_at :: "u64 \<Rightarrow> Clock" where
  "clock_at t = \<lparr>timestamp_ms = t\<rparr>"

definition ctx_of :: "address \<Rightarrow> TxContext" where
  "ctx_of a = \<lparr>sender = a, tx_hash = [], ids_created = 0\<rparr>"

definition registry0 :: IntentRegistry where
  "registry0 = fst (init (ctx_of 0))"

definition intent0 :: Intent where
  "intent0 = \<lparr>intent_uid = ([], 0), owner = 7, encrypted_data = [1, 2, 3], created_at = 1000,
     expires_at = 5000, status = STATUS_ACTIVE, trigger_type = TRIGGER_PRICE_BELOW,
     trigger_value = 100, pair_hash = [9], executed_at = None, executed_price = None,
     tx_digest = None\<rparr>"

definition tx_of :: "address \<Rightarrow> u64 \<Rightarrow> Call \<Rightarrow> Tx" where
  "tx_of a t c = \<lparr>tx_context = ctx_of a, tx_clock = clock_at t, tx_call = c\<rparr>"

definition ledger1 :: Ledger where
  "ledger1 = \<lparr>registry = \<lparr>registry_uid = ([], 0), total_intents = 1, active_intents = 1,
     executed_intents = 0\<rparr>, intents = [intent0]\<rparr>"

definition order0 :: LimitOrder where
  "order0 = \<lparr>order_id = ''order_1'', order_pair = ''SUI_USDC'', order_side = Buy,
     order_type = Limit, triggerPrice = Num 5, order_quantity = Num 1,
     order_status = Pending, order_createdAt = Num 1000, triggeredAt = None\<rparr>"

definition prices_at :: "number \<Rightarrow> string \<Rightarrow> number option" where
  "prices_at p name = (if name = ''SUI_USDC'' then Some p else None)"

definition intentData0 :: IntentData where
  "intentData0 = \<lparr>intentId = ''intent_1'', pair = ''SUI_USDC'', triggerType = price_below,
     triggerValue = Num 100, orderType = market, side = Buy, quantity = Num 2,
     leverage = None, slippageBps = Num 50, expiresAt = Num 5000\<rparr>"

definition config0 :: SealConfig where
  "config0 = \<lparr>network = testnet, policyPackageId = ''0x0'', enclaveConfigId = ''0x0'',
     config_threshold = Some (Num 2)\<rparr>"

text \<open>A codec that knows one payload: enough to run the mock encryption on it.\<close>

definition toy_encode :: "json \<Rightarrow> u8 list" where
  "toy_encode v = (if v = intentJson intentData0 (Num 1000) then [123, 125] else [110])"

definition toy_decode :: "u8 list \<Rightarrow> json option" where
  "toy_decode b = (if b = [123, 125] then Some (intentJson intentData0 (Num 1000)) else None)"

section \<open>Basic facts\<close>

lemmas status_defs =
  STATUS_ACTIVE_def STATUS_EXECUTING_def STATUS_EXECUTED_def
  STATUS_CANCELLED_def STATUS_EXPIRED_def STATUS_FAILED_def


subsection \<open>Checked arithmetic\<close>

lemma add_u64_one: "add_u64 a 1 = Inr c \<Longrightarrow> unat c = unat a + 1"
  by (auto simp: add_u64_def unat_add_lem [THEN iffD1] split: if_splits)

lemma sub_u64_1: "sub_u64 a 1 = (if a = 0 then Inl ArithmeticError else Inr (a - 1))"
  by (simp add: sub_u64_def word_le_nat_alt unat_gt_0 Suc_leI unat_eq_0 not_less_eq_eq)

lemma add_u64_1:
  "add_u64 a 1 = (if unat a + 1 < 2 ^ 64 then Inr (a + 1) else Inl ArithmeticError)"
  by (simp add: add_u64_def)

lemma unat_pred: "(a :: u64) \<noteq> 0 \<Longrightarrow> unat (a - 1) + 1 = unat a"
  by (simp add: unat_minus_one unat_gt_0 Suc_leI)

lemma unat_pred_Suc: "(a :: u64) \<noteq> 0 \<Longrightarrow> Suc (unat (a - 1)) = unat a"
  using unat_pred [of a] by simp

lemma unat_succ: "unat (a :: u64) + 1 < 2 ^ 64 \<Longrightarrow> unat (a + 1) = unat a + 1"
  using add_u64_one [of a "a + 1"] by (simp add: add_u64_1)

subsection \<open>The entry points as case distinctions\<close>

lemma mark_executing_eq:
  "mark_executing i c =
     (if status i \<noteq> STATUS_ACTIVE then Inl (Abort EAlreadyExecuting)
      else if expires_at i \<le> timestamp_ms c then Inl (Abort EIntentExpired)
      else Inr (i\<lparr>status := STATUS_EXECUTING\<rparr>, [IntentExecuting (intent_uid i) (timestamp_ms c)]))"
  by (simp add: mark_executing_def Let_def not_less)

lemma cancel_intent_eq:
  "cancel_intent r i c ctx =
     (if sender ctx \<noteq> owner i then Inl (Abort ENotOwner)
      else if status i \<noteq> STATUS_ACTIVE then Inl (Abort EInvalidStatus)
      else if active_intents r = 0 then Inl ArithmeticError
      else Inr (r\<lparr>active_intents := active_intents r - 1\<rparr>, i\<lparr>status := STATUS_CANCELLED\<rparr>,
                [IntentCancelled (intent_uid i) (timestamp_ms c)]))"
  by (simp add: cancel_intent_def sub_u64_1)

lemma mark_executed_eq:
  "mark_executed r i p d c =
     (if status i \<noteq> STATUS_EXECUTING then Inl (Abort EInvalidStatus)
      else if active_intents r = 0 then Inl ArithmeticError
      else if \<not> unat (executed_intents r) + 1 < 2 ^ 64 then Inl ArithmeticError
      else Inr (r\<lparr>active_intents := active_intents r - 1,
                   executed_intents := executed_intents r + 1\<rparr>,
                i\<lparr>status := STATUS_EXECUTED, executed_at := Some (timestamp_ms c),
                  executed_price := Some p, tx_digest := Some d\<rparr>,
                [IntentExecuted (intent_uid i) (timestamp_ms c) p]))"
  by (simp add: mark_executed_def Let_def sub_u64_1 add_u64_1)

lemma mark_failed_eq:
  "mark_failed r i reason c =
     (if status i \<noteq> STATUS_EXECUTING then Inl (Abort EInvalidStatus)
      else if active_intents r = 0 then Inl ArithmeticError
      else Inr (r\<lparr>active_intents := active_intents r - 1\<rparr>, i\<lparr>status := STATUS_FAILED\<rparr>,
                [IntentFailed (intent_uid i) (timestamp_ms c) reason]))"
  by (simp add: mark_failed_def sub_u64_1)

lemma create_intent_eq:
  "create_intent r data tt tv ph ex c ctx =
     (if ex \<le> timestamp_ms c then Inl (Abort EIntentExpired)
      else if TRIGGER_PRICE_ABOVE < tt then Inl (Abort EInvalidTriggerType)
      else if \<not> unat (total_intents r) + 1 < 2 ^ 64 then Inl ArithmeticError
      else if \<not> unat (active_intents r) + 1 < 2 ^ 64 then Inl ArithmeticError
      else Inr (r\<lparr>total_intents := total_intents r + 1, active_intents := active_intents r + 1\<rparr>,
                \<lparr>intent_uid = (tx_hash ctx, ids_created ctx), owner = sender ctx,
                  encrypted_data = data, created_at = timestamp_ms c, expires_at = ex,
                  status = STATUS_ACTIVE, trigger_type = tt, trigger_value = tv,
                  pair_hash = ph, executed_at = None, executed_price = None,
                  tx_digest = None\<rparr>,
                ctx\<lparr>ids_created := ids_created ctx + 1\<rparr>,
                [IntentCreated (tx_hash ctx, ids_created ctx) (sender ctx) tt tv ph ex]))"
  by (auto simp: create_intent_def Let_def object_new_def add_u64_1 not_less not_le)

lemma trigger_type_enumerated:
  "(tt :: u8) \<le> TRIGGER_PRICE_ABOVE \<longleftrightarrow> tt = TRIGGER_PRICE_BELOW \<or> tt = TRIGGER_PRICE_ABOVE"
proof -
  have "tt \<le> 1 \<longleftrightarrow> unat tt = 0 \<or> unat tt = 1"
    by (auto simp: word_le_nat_alt)
  moreover have "unat tt = 1 \<longleftrightarrow> tt = 1"
    using word_unat_eq_iff [of tt 1] by simp
  ultimately show ?thesis
    by (simp add: TRIGGER_PRICE_ABOVE_def TRIGGER_PRICE_BELOW_def unat_eq_zero)
qed

subsection \<open>Transactions on the ledger\<close>

lemma exec_Create:
  "tx_call tx = CreateIntent data tt tv ph ex \<Longrightarrow>
   exec l tx =
     (case create_intent (registry l) data tt tv ph ex (tx_clock tx) (tx_context tx) of
        Inl e \<Rightarrow> l
      | Inr (r, i, _, _) \<Rightarrow> l\<lparr>registry := r, intents := intents l @ [i]\<rparr>)"
  by (simp add: exec_def well_addressed_def split: sum.splits)

lemma exec_Cancel:
  "tx_call tx = CancelIntent k \<Longrightarrow>
   exec l tx =
     (if k < length (intents l)
      then (case cancel_intent (registry l) (intents l ! k) (tx_clock tx) (tx_context tx) of
              Inl e \<Rightarrow> l
            | Inr (r, i, _) \<Rightarrow> l\<lparr>registry := r, intents := (intents l)[k := i]\<rparr>)
      else l)"
  by (simp add: exec_def well_addressed_def split: sum.splits)

lemma exec_MarkExecuting:
  "tx_call tx = MarkExecuting k \<Longrightarrow>
   exec l tx =
     (if k < length (intents l)
      then (case mark_executing (intents l ! k) (tx_clock tx) of
              Inl e \<Rightarrow> l
            | Inr (i, _) \<Rightarrow> l\<lparr>intents := (intents l)[k := i]\<rparr>)
      else l)"
  by (simp add: exec_def well_addressed_def split: sum.splits)

lemma exec_MarkExecuted:
  "tx_call tx = MarkExecuted k p d \<Longrightarrow>
   exec l tx =
     (if k < length (intents l)
      then (case mark_executed (registry l) (intents l ! k) p d (tx_clock tx) of
              Inl e \<Rightarrow> l
            | Inr (r, i, _) \<Rightarrow> l\<lparr>registry := r, intents := (intents l)[k := i]\<rparr>)
      else l)"
  by (simp add: exec_def well_addressed_def split: sum.splits)

lemma exec_MarkFailed:
  "tx_call tx = MarkFailed k reason \<Longrightarrow>
   exec l tx =
     (if k < length (intents l)
      then (case mark_failed (registry l) (intents l ! k) reason (tx_clock tx) of
              Inl e \<Rightarrow> l
            | Inr (r, i, _) \<Rightarrow> l\<lparr>registry := r, intents := (intents l)[k := i]\<rparr>)
      else l)"
  by (simp add: exec_def well_addressed_def split: sum.splits)

lemma exec_ResetToActive:
  "tx_call tx = ResetToActive k \<Longrightarrow>
   exec l tx =
     (if k < length (intents l)
      then (case reset_to_active (intents l ! k) of
              Inl e \<Rightarrow> l
            | Inr i \<Rightarrow> l\<lparr>intents := (intents l)[k := i]\<rparr>)
      else l)"
  by (simp add: exec_def well_addressed_def split: sum.splits)

subsection \<open>The counter of active intents\<close>

lemma count_active_append:
  "count_active (xs @ [x]) = count_active xs + (if counted_active x then 1 else 0)"
  by (simp add: count_active_def)

lemma count_active_update_same:
  "k < length xs \<Longrightarrow> counted_active x = counted_active (xs ! k) \<Longrightarrow>
   count_active (xs[k := x]) = count_active xs"
proof (induction xs arbitrary: k)
  case Nil
  then show ?case by simp
next
  case (Cons y ys)
  then show ?case
    by (cases k) (simp_all add: count_active_def)
qed

lemma count_active_update_drop:
  "k < length xs \<Longrightarrow> counted_active (xs ! k) \<Longrightarrow> \<not> counted_active x \<Longrightarrow>
   count_active (xs[k := x]) + 1 = count_active xs"
proof (induction xs arbitrary: k)
  case Nil
  then show ?case by simp
next
  case (Cons y ys)
  then show ?case
    by (cases k) (simp_all add: count_active_def)
qed

lemma counted_active_simps:
  "status i = STATUS_ACTIVE \<Longrightarrow> counted_active i"
  "status i = STATUS_EXECUTING \<Longrightarrow> counted_active i"
  "status i = STATUS_EXECUTED \<Longrightarrow> \<not> counted_active i"
  "status i = STATUS_CANCELLED \<Longrightarrow> \<not> counted_active i"
  "status i = STATUS_FAILED \<Longrightarrow> \<not> counted_active i"
  "status i = STATUS_EXPIRED \<Longrightarrow> \<not> counted_active i"
  by (simp_all add: counted_active_def status_defs)

lemma count_active_pos:
  "k < length xs \<Longrightarrow> counted_active (xs ! k) \<Longrightarrow> 0 < count_active xs"
  unfolding count_active_def
  by (metis filter_empty_conv length_greater_0_conv nth_mem)

lemma exec_count:
  assumes inv: "unat (active_intents (registry l)) = count_active (intents l)"
  shows "unat (active_intents (registry (exec l tx))) = count_active (intents (exec l tx))"
proof (cases "tx_call tx")
  case (CreateIntent data tt tv ph ex)
  show ?thesis
    using inv
    by (simp add: exec_Create [OF CreateIntent] create_intent_eq count_active_append
        counted_active_simps unat_succ)
next
  case (CancelIntent k)
  show ?thesis
  proof (cases "exec l tx = l")
    case True
    then show ?thesis using inv by simp
  next
    case False
    then have k: "k < length (intents l)" and a: "status (intents l ! k) = STATUS_ACTIVE"
      and nz: "active_intents (registry l) \<noteq> 0"
      and e: "exec l tx = l\<lparr>registry := (registry l)\<lparr>active_intents := active_intents (registry l) - 1\<rparr>,
                 intents := (intents l)[k := (intents l ! k)\<lparr>status := STATUS_CANCELLED\<rparr>]\<rparr>"
      by (auto simp: exec_Cancel [OF CancelIntent] cancel_intent_eq split: if_splits)
    have "count_active ((intents l)[k := (intents l ! k)\<lparr>status := STATUS_CANCELLED\<rparr>]) + 1
        = count_active (intents l)"
      using k a by (intro count_active_update_drop) (simp_all add: counted_active_simps)
    then show ?thesis
      using inv unat_pred [OF nz] by (simp add: e)
  qed
next
  case (MarkExecuting k)
  show ?thesis
  proof (cases "exec l tx = l")
    case True
    then show ?thesis using inv by simp
  next
    case False
    then have k: "k < length (intents l)" and a: "status (intents l ! k) = STATUS_ACTIVE"
      and e: "exec l tx = l\<lparr>intents := (intents l)[k := (intents l ! k)\<lparr>status := STATUS_EXECUTING\<rparr>]\<rparr>"
      by (auto simp: exec_MarkExecuting [OF MarkExecuting] mark_executing_eq split: if_splits)
    have "count_active ((intents l)[k := (intents l ! k)\<lparr>status := STATUS_EXECUTING\<rparr>])
        = count_active (intents l)"
      using k a by (intro count_active_update_same) (simp_all add: counted_active_simps)
    then show ?thesis
      using inv by (simp add: e)
  qed
next
  case (MarkExecuted k p d)
  show ?thesis
  proof (cases "exec l tx = l")
    case True
    then show ?thesis using inv by simp
  next
    case False
    then have k: "k < length (intents l)" and a: "status (intents l ! k) = STATUS_EXECUTING"
      and nz: "active_intents (registry l) \<noteq> 0"
      and e: "exec l tx = l\<lparr>registry := (registry l)\<lparr>active_intents := active_intents (registry l) - 1,
                   executed_intents := executed_intents (registry l) + 1\<rparr>,
                 intents := (intents l)[k := (intents l ! k)\<lparr>status := STATUS_EXECUTED,
                   executed_at := Some (timestamp_ms (tx_clock tx)),
                   executed_price := Some p, tx_digest := Some d\<rparr>]\<rparr>"
      by (auto simp: exec_MarkExecuted [OF MarkExecuted] mark_executed_eq split: if_splits)
    have "count_active ((intents l)[k := (intents l ! k)\<lparr>status := STATUS_EXECUTED,
                   executed_at := Some (timestamp_ms (tx_clock tx)),
                   executed_price := Some p, tx_digest := Some d\<rparr>]) + 1
        = count_active (intents l)"
      using k a by (intro count_active_update_drop) (simp_all add: counted_active_simps)
    then show ?thesis
      using inv unat_pred [OF nz] by (simp add: e)
  qed
next
  case (MarkFailed k reason)
  show ?thesis
  proof (cases "exec l tx = l")
    case True
    then show ?thesis using inv by simp
  next
    case False
    then have k: "k < length (intents l)" and a: "status (intents l ! k) = STATUS_EXECUTING"
      and nz: "active_intents (registry l) \<noteq> 0"
      and e: "exec l tx = l\<lparr>registry := (registry l)\<lparr>active_intents := active_intents (registry l) - 1\<rparr>,
                 intents := (intents l)[k := (intents l ! k)\<lparr>status := STATUS_FAILED\<rparr>]\<rparr>"
      by (auto simp: exec_MarkFailed [OF MarkFailed] mark_failed_eq split: if_splits)
    have "count_active ((intents l)[k := (intents l ! k)\<lparr>status := STATUS_FAILED\<rparr>]) + 1
        = count_active (intents l)"
      using k a by (intro count_active_update_drop) (simp_all add: counted_active_simps)
    then show ?thesis
      using inv unat_pred [OF nz] by (simp add: e)
  qed
next
  case (ResetToActive k)
  show ?thesis
  proof (cases "exec l tx = l")
    case True
    then show ?thesis using inv by simp
  next
    case False
    then have k: "k < length (intents l)" and a: "status (intents l ! k) = STATUS_EXECUTING"
      and e: "exec l tx = l\<lparr>intents := (intents l)[k := (intents l ! k)\<lparr>status := STATUS_ACTIVE\<rparr>]\<rparr>"
      by (auto simp: exec_ResetToActive [OF ResetToActive] reset_to_active_def split: if_splits)
    have "count_active ((intents l)[k := (intents l ! k)\<lparr>status := STATUS_ACTIVE\<rparr>])
        = count_active (intents l)"
      using k a by (intro count_active_update_same) (simp_all add: counted_active_simps)
    then show ?thesis
      using inv by (simp add: e)
  qed
qed

lemma run_count:
  "unat (active_intents (registry l)) = count_active (intents l) \<Longrightarrow>
   unat (active_intents (registry (run l txs))) = count_active (intents (run l txs))"
  unfolding run_def
  by (induction txs arbitrary: l) (simp_all add: exec_count)

lemma genesis_count:
  "unat (active_intents (registry (genesis ctx))) = count_active (intents (genesis ctx))"
  by (simp add: genesis_def init_def object_new_def count_active_def)

lemma reachable_active_nonzero:
  assumes "k < length (intents (run (genesis ctx) txs))"
    and "counted_active (intents (run (genesis ctx) txs) ! k)"
  shows "active_intents (registry (run (genesis ctx) txs)) \<noteq> 0"
proof -
  have "0 < unat (active_intents (registry (run (genesis ctx) txs)))"
    using count_active_pos [OF assms] run_count [OF genesis_count, of ctx txs] by simp
  then show ?thesis
    by (simp add: unat_gt_0)
qed

subsection \<open>The shape of a ledger step\<close>

text \<open>
  Every transaction leaves the ledger as it is, appends the intent that \<open>create_intent\<close>
  builds, or replaces one intent.
\<close>

lemma exec_shape:
  "exec l tx = l \<or>
   (\<exists>i. created tx i \<and> intents (exec l tx) = intents l @ [i]) \<or>
   (\<exists>k i'. k < length (intents l) \<and> moved tx k (intents l ! k) i' \<and>
      intents (exec l tx) = (intents l)[k := i'])"
proof (cases "tx_call tx")
  case (CreateIntent data tt tv ph ex)
  show ?thesis
    by (auto simp: exec_Create [OF CreateIntent] create_intent_eq created_def CreateIntent
        not_less not_le)
next
  case (CancelIntent k)
  show ?thesis
    by (auto simp: exec_Cancel [OF CancelIntent] cancel_intent_eq moved_def CancelIntent)
next
  case (MarkExecuting k)
  show ?thesis
    by (auto simp: exec_MarkExecuting [OF MarkExecuting] mark_executing_eq moved_def
        MarkExecuting not_le)
next
  case (MarkExecuted k p d)
  show ?thesis
    by (auto simp: exec_MarkExecuted [OF MarkExecuted] mark_executed_eq moved_def MarkExecuted)
next
  case (MarkFailed k reason)
  show ?thesis
    by (auto simp: exec_MarkFailed [OF MarkFailed] mark_failed_eq moved_def MarkFailed)
next
  case (ResetToActive k)
  show ?thesis
    by (auto simp: exec_ResetToActive [OF ResetToActive] reset_to_active_def moved_def
        ResetToActive)
qed

lemma exec_nth:
  assumes "k < length (intents l)"
  shows "intents (exec l tx) ! k = intents l ! k \<or>
         moved tx k (intents l ! k) (intents (exec l tx) ! k)"
proof -
  consider "exec l tx = l"
    | i where "intents (exec l tx) = intents l @ [i]"
    | j i' where "j < length (intents l)" "moved tx j (intents l ! j) i'"
        "intents (exec l tx) = (intents l)[j := i']"
    using exec_shape [of l tx] by blast
  then show ?thesis
  proof cases
    case 1
    then show ?thesis by simp
  next
    case 2
    then show ?thesis using assms by (simp add: nth_append)
  next
    case 3
    then show ?thesis using assms by (cases "j = k") simp_all
  qed
qed

lemma exec_length: "length (intents l) \<le> length (intents (exec l tx))"
  using exec_shape [of l tx] by auto

lemma moved_edge: "moved tx k i i' \<Longrightarrow> spec_edge (status i) (status i')"
  by (auto simp: moved_def spec_edge_def)

lemma moved_terminal: "moved tx k i i' \<Longrightarrow> \<not> spec_terminal (status i)"
  by (auto simp: moved_def spec_terminal_def status_defs)

lemma moved_not_expired: "moved tx k i i' \<Longrightarrow> status i' \<noteq> STATUS_EXPIRED"
  by (auto simp: moved_def status_defs)

lemma moved_consistent: "moved tx k i i' \<Longrightarrow> execution_consistent i \<Longrightarrow> execution_consistent i'"
  by (auto simp: moved_def execution_consistent_def execution_recorded_def execution_empty_def
      status_defs)

lemma created_consistent: "created tx i \<Longrightarrow> execution_consistent i \<and> status i = STATUS_ACTIVE"
  by (auto simp: created_def execution_consistent_def execution_empty_def status_defs)

lemma exec_consistent:
  assumes "list_all execution_consistent (intents l)"
  shows "list_all execution_consistent (intents (exec l tx))"
proof -
  consider "exec l tx = l"
    | i where "created tx i" "intents (exec l tx) = intents l @ [i]"
    | j i' where "j < length (intents l)" "moved tx j (intents l ! j) i'"
        "intents (exec l tx) = (intents l)[j := i']"
    using exec_shape [of l tx] by blast
  then show ?thesis
  proof cases
    case 1
    then show ?thesis using assms by simp
  next
    case 2
    then show ?thesis using assms created_consistent by simp
  next
    case 3
    have "execution_consistent (intents l ! j)"
      using assms 3(1) by (simp add: list_all_length)
    then have "execution_consistent i'"
      using 3(2) moved_consistent by blast
    then show ?thesis
      using assms 3(3) by (auto simp: list_all_iff dest: set_update_subset_insert [THEN subsetD])
  qed
qed

lemma run_consistent:
  "list_all execution_consistent (intents l) \<Longrightarrow>
   list_all execution_consistent (intents (run l txs))"
  unfolding run_def
  by (induction txs arbitrary: l) (simp_all add: exec_consistent)

lemma genesis_consistent: "list_all execution_consistent (intents (genesis ctx))"
  by (simp add: genesis_def)

lemma exec_terminal:
  "k < length (intents l) \<Longrightarrow> spec_terminal (status (intents l ! k)) \<Longrightarrow>
   intents (exec l tx) ! k = intents l ! k"
  using exec_nth [of k l tx] moved_terminal by blast

lemma run_length: "length (intents l) \<le> length (intents (run l txs))"
  unfolding run_def
proof (induction txs arbitrary: l)
  case Nil
  then show ?case by simp
next
  case (Cons tx txs)
  show ?case
    using Cons [of "exec l tx"] exec_length [of l tx] by simp
qed

lemma run_terminal:
  "k < length (intents l) \<Longrightarrow> spec_terminal (status (intents l ! k)) \<Longrightarrow>
   intents (run l txs) ! k = intents l ! k"
  unfolding run_def
proof (induction txs arbitrary: l)
  case Nil
  then show ?case by simp
next
  case (Cons tx txs)
  have "k < length (intents (exec l tx))"
    using Cons.prems(1) exec_length [of l tx] by simp
  moreover have "intents (exec l tx) ! k = intents l ! k"
    using Cons.prems by (rule exec_terminal)
  ultimately show ?case
    using Cons.IH [of "exec l tx"] Cons.prems(2) by simp
qed

lemma exec_status:
  "k < length (intents l) \<Longrightarrow>
   status (intents (exec l tx) ! k) = status (intents l ! k) \<or>
   spec_edge (status (intents l ! k)) (status (intents (exec l tx) ! k))"
  using exec_nth [of k l tx] moved_edge by auto

lemma observed_hd: "hd (observed l txs k) = status (intents l ! k) \<and> observed l txs k \<noteq> []"
  by (cases txs) simp_all

lemma observed_graph:
  "k < length (intents l) \<Longrightarrow>
   successively (\<lambda>s s'. s = s' \<or> spec_edge s s') (observed l txs k)"
proof (induction txs arbitrary: l)
  case Nil
  then show ?case by simp
next
  case (Cons tx txs)
  have k: "k < length (intents (exec l tx))"
    using Cons.prems exec_length [of l tx] by simp
  have "status (intents l ! k) = status (intents (exec l tx) ! k) \<or>
      spec_edge (status (intents l ! k)) (status (intents (exec l tx) ! k))"
    using exec_status [OF Cons.prems, of tx] by auto
  then show ?case
    using Cons.IH [OF k] observed_hd [of "exec l tx" txs k]
    by (simp add: successively_Cons)
qed

lemma claims_on_executing:
  "k < length (intents l) \<Longrightarrow> status (intents l ! k) = STATUS_EXECUTING \<Longrightarrow>
   \<forall>tx \<in> set txs. tx_call tx = MarkExecuting k \<Longrightarrow> run l txs = l"
  unfolding run_def
proof (induction txs)
  case Nil
  then show ?case by simp
next
  case (Cons tx txs)
  have "tx_call tx = MarkExecuting k"
    using Cons.prems(3) by simp
  then have "exec l tx = l"
    using Cons.prems(1,2) by (simp add: exec_MarkExecuting mark_executing_eq status_defs)
  then show ?case
    using Cons by simp
qed

subsection \<open>Concrete runs\<close>

lemmas input_defs = intent0_def ledger1_def tx_of_def ctx_of_def clock_at_def

lemma exec_claim_ledger1:
  "exec ledger1 (tx_of 9 2000 (MarkExecuting 0)) =
     ledger1\<lparr>intents := [intent0\<lparr>status := STATUS_EXECUTING\<rparr>]\<rparr>"
  by (simp add: exec_def well_addressed_def mark_executing_eq input_defs status_defs)

lemma genesis_create:
  "exec (genesis (ctx_of 0)) (tx_of 7 1000 (CreateIntent [1, 2, 3] TRIGGER_PRICE_BELOW 100 [9] 5000))
     = ledger1"
  by (simp add: exec_def well_addressed_def create_intent_eq genesis_def init_def object_new_def
      input_defs status_defs TRIGGER_PRICE_BELOW_def TRIGGER_PRICE_ABOVE_def)

lemma exec_done_ledger1:
  "exec (ledger1\<lparr>intents := [intent0\<lparr>status := STATUS_EXECUTING\<rparr>]\<rparr>)
     (tx_of 9 2100 (MarkExecuted 0 95 [4, 5])) =
   \<lparr>registry = \<lparr>registry_uid = ([], 0), total_intents = 1, active_intents = 0,
      executed_intents = 1\<rparr>,
    intents = [intent0\<lparr>status := STATUS_EXECUTED, executed_at := Some 2100,
      executed_price := Some 95, tx_digest := Some [4, 5]\<rparr>]\<rparr>"
  by (simp add: exec_def well_addressed_def mark_executed_eq input_defs status_defs)

lemma exec_reset_ledger1:
  "exec (ledger1\<lparr>intents := [intent0\<lparr>status := STATUS_EXECUTING\<rparr>]\<rparr>)
     (tx_of 9 2000 (ResetToActive 0)) = ledger1"
  by (simp add: exec_def well_addressed_def reset_to_active_def input_defs status_defs)



subsection \<open>Checking triggers\<close>

lemma num_le_refl: "num_le (Num x) (Num x)"
  by (simp add: num_le_def)

lemma num_ge_refl: "num_ge (Num x) (Num x)"
  by (simp add: num_ge_def)

lemma checkTrigger_pending:
  "order_status o' = Pending \<Longrightarrow> newPrices (order_pair o') = Some p \<Longrightarrow> \<not> falsy (Some p) \<Longrightarrow>
   checkTrigger newPrices now o' =
     (if shouldTrigger o' p then o'\<lparr>order_status := Triggered, triggeredAt := Some now\<rparr> else o')"
  by (simp add: checkTrigger_def)

lemma checkTrigger_status:
  "order_status o' = Pending \<Longrightarrow> newPrices (order_pair o') = Some p \<Longrightarrow> \<not> falsy (Some p) \<Longrightarrow>
   order_status (checkTrigger newPrices now o') = Triggered \<longleftrightarrow> shouldTrigger o' p"
  by (simp add: checkTrigger_pending)

lemma checkTrigger_truthy:
  assumes "order_status o' = Pending"
    and "newPrices (order_pair o') = Some p"
    and "\<not> falsy (Some p)"
  shows "(order_type o' = Limit \<and> order_side o' = Buy \<or>
          order_type o' = StopLoss \<and> order_side o' = Sell \<or>
          order_type o' = TakeProfit \<and> order_side o' = Buy \<longrightarrow>
            (order_status (checkTrigger newPrices now o') = Triggered \<longleftrightarrow>
             num_le p (triggerPrice o'))) \<and>
         (order_type o' = Limit \<and> order_side o' = Sell \<or>
          order_type o' = StopLoss \<and> order_side o' = Buy \<or>
          order_type o' = TakeProfit \<and> order_side o' = Sell \<longrightarrow>
            (order_status (checkTrigger newPrices now o') = Triggered \<longleftrightarrow>
             num_ge p (triggerPrice o'))) \<and>
         (order_type o' = Limit \<and> order_side o' = Buy \<or>
          order_type o' = StopLoss \<and> order_side o' = Sell \<or>
          order_type o' = TakeProfit \<and> order_side o' = Buy \<longrightarrow>
            (order_status (checkTrigger newPrices now o') = Triggered \<longleftrightarrow>
             spec_trigger_matches TRIGGER_PRICE_BELOW p (triggerPrice o'))) \<and>
         (order_type o' = Limit \<and> order_side o' = Sell \<or>
          order_type o' = StopLoss \<and> order_side o' = Buy \<or>
          order_type o' = TakeProfit \<and> order_side o' = Sell \<longrightarrow>
            (order_status (checkTrigger newPrices now o') = Triggered \<longleftrightarrow>
             spec_trigger_matches TRIGGER_PRICE_ABOVE p (triggerPrice o'))) \<and>
         (order_type o' = Limit \<or> order_side o' = Sell \<longrightarrow>
            (order_status (checkTrigger newPrices now o') = Triggered \<longleftrightarrow>
             spec_trigger_matches (createOrder_triggerType (order_type o') (order_side o')) p
               (triggerPrice o'))) \<and>
         (p = triggerPrice o' \<longrightarrow> order_status (checkTrigger newPrices now o') = Triggered) \<and>
         (order_status (checkTrigger newPrices now o') \<noteq> Triggered \<longrightarrow>
            checkTrigger newPrices now o' = o')"
proof (intro conjI impI)
  note st = checkTrigger_status [of o' newPrices p now, OF assms]
  {
    assume "order_type o' = Limit \<and> order_side o' = Buy \<or>
        order_type o' = StopLoss \<and> order_side o' = Sell \<or>
        order_type o' = TakeProfit \<and> order_side o' = Buy"
    then show "order_status (checkTrigger newPrices now o') = Triggered \<longleftrightarrow>
        num_le p (triggerPrice o')"
      unfolding st by (auto simp: shouldTrigger_def)
  next
    assume "order_type o' = Limit \<and> order_side o' = Sell \<or>
        order_type o' = StopLoss \<and> order_side o' = Buy \<or>
        order_type o' = TakeProfit \<and> order_side o' = Sell"
    then show "order_status (checkTrigger newPrices now o') = Triggered \<longleftrightarrow>
        num_ge p (triggerPrice o')"
      unfolding st by (auto simp: shouldTrigger_def)
  next
    assume "order_type o' = Limit \<and> order_side o' = Buy \<or>
        order_type o' = StopLoss \<and> order_side o' = Sell \<or>
        order_type o' = TakeProfit \<and> order_side o' = Buy"
    then show "order_status (checkTrigger newPrices now o') = Triggered \<longleftrightarrow>
        spec_trigger_matches TRIGGER_PRICE_BELOW p (triggerPrice o')"
      unfolding st by (auto simp: shouldTrigger_def spec_trigger_matches_def)
  next
    assume "order_type o' = Limit \<and> order_side o' = Sell \<or>
        order_type o' = StopLoss \<and> order_side o' = Buy \<or>
        order_type o' = TakeProfit \<and> order_side o' = Sell"
    then show "order_status (checkTrigger newPrices now o') = Triggered \<longleftrightarrow>
        spec_trigger_matches TRIGGER_PRICE_ABOVE p (triggerPrice o')"
      unfolding st
      by (auto simp: shouldTrigger_def spec_trigger_matches_def TRIGGER_PRICE_BELOW_def
          TRIGGER_PRICE_ABOVE_def)
  next
    assume "order_type o' = Limit \<or> order_side o' = Sell"
    then show "order_status (checkTrigger newPrices now o') = Triggered \<longleftrightarrow>
        spec_trigger_matches (createOrder_triggerType (order_type o') (order_side o')) p
          (triggerPrice o')"
      unfolding st
      by (cases "order_type o'"; cases "order_side o'")
        (simp_all add: shouldTrigger_def spec_trigger_matches_def createOrder_triggerType_def
          TRIGGER_PRICE_BELOW_def TRIGGER_PRICE_ABOVE_def)
  next
    assume e: "p = triggerPrice o'"
    obtain x where x: "p = Num x"
      using assms(3) by (cases p) (simp_all add: falsy_def)
    have "shouldTrigger o' p"
      using e x num_le_refl [of x] num_ge_refl [of x]
      by (cases "order_type o'"; cases "order_side o'") (auto simp: shouldTrigger_def)
    then show "order_status (checkTrigger newPrices now o') = Triggered"
      by (simp add: st)
  next
    assume "order_status (checkTrigger newPrices now o') \<noteq> Triggered"
    then show "checkTrigger newPrices now o' = o'"
      by (auto simp: checkTrigger_pending [of o' newPrices p now, OF assms] split: if_splits)
  }
qed

subsection \<open>Mock encryption\<close>

lemma length_xorCipher: "length (xorCipher data key) = length data"
  by (simp add: xorCipher_def)

lemma xorCipher_nth:
  "i < length data \<Longrightarrow>
   xorCipher data key ! i = (data ! i) XOR (if key = [] then 0 else key ! (i mod length key))"
  by (simp add: xorCipher_def)

lemma xorCipher_involution: "xorCipher (xorCipher data key) key = data"
proof (rule nth_equalityI)
  show "length (xorCipher (xorCipher data key) key) = length data"
    by (simp add: length_xorCipher)
next
  fix i
  assume "i < length (xorCipher (xorCipher data key) key)"
  then have i: "i < length data"
    by (simp add: length_xorCipher)
  then show "xorCipher (xorCipher data key) key ! i = data ! i"
    by (simp add: xorCipher_nth length_xorCipher xor.assoc)
qed

lemma unat_byte: "unat (of_nat n :: u8) = n mod 256"
  by (simp add: unat_of_nat)

lemma getUint32_setUint32:
  assumes "n < 2 ^ 32"
  shows "getUint32_le (setUint32_le n @ rest) = Some n"
proof -
  have a: "n = n mod 256 + 256 * (n div 256)"
    by simp
  have "n div 256 div 256 = n div (256 * 256)"
    by (simp only: div_mult2_eq)
  then have b: "n div 256 = n div 256 mod 256 + 256 * (n div 65536)"
    using mod_mult_div_eq [of "n div 256" 256] by simp
  have "n div 65536 div 256 = n div (65536 * 256)"
    by (simp only: div_mult2_eq)
  then have c: "n div 65536 = n div 65536 mod 256 + 256 * (n div 16777216)"
    using mod_mult_div_eq [of "n div 65536" 256] by simp
  have "n div 16777216 < 256"
    using assms by (simp add: less_mult_imp_div_less)
  then have d: "n div 16777216 mod 256 = n div 16777216"
    by simp
  have "n mod 256 + 256 * (n div 256 mod 256) + 65536 * (n div 65536 mod 256) +
      16777216 * (n div 16777216 mod 256) = n"
    using a b c unfolding d by linarith
  then show ?thesis
    using d by (simp add: getUint32_le_def setUint32_le_def unat_byte)
qed

lemma new_Uint8Array_simps:
  "buffer (new_Uint8Array bs) = bs" "elements (new_Uint8Array bs) = bs"
  by (simp_all add: new_Uint8Array_def elements_def)

lemma encryptedBytes_encryptIntentMock:
  "encryptedBytes (encryptIntentMock encodeJson x config key createdAt metaNow verifyNow) =
     new_Uint8Array
       (setUint32_le (length (encodeJson (metadataJson (intentId x) config metaNow))) @
        encodeJson (metadataJson (intentId x) config metaNow) @
        xorCipher (encodeJson (intentJson x createdAt)) key)"
  by (simp add: encryptIntentMock_def createMockEncryptedObject_def Let_def)

lemma backupKey_encryptIntentMock:
  "backupKey (encryptIntentMock encodeJson x config key createdAt metaNow verifyNow) = Some key"
  by (simp add: encryptIntentMock_def createMockEncryptedObject_def Let_def)

lemma decrypt_envelope:
  assumes "length md < 2 ^ 32"
  shows "decryptMockIntent decodeJson
      (new_Uint8Array (setUint32_le (length md) @ md @ xorCipher pt key)) key = decodeJson pt"
proof -
  have "getUint32_le (setUint32_le (length md) @ md @ xorCipher pt key) = Some (length md)"
    using assms by (rule getUint32_setUint32)
  moreover have "length (setUint32_le (length md)) = 4"
    by (simp add: setUint32_le_def)
  then have "drop (4 + length md) (setUint32_le (length md) @ md @ xorCipher pt key) =
      xorCipher pt key"
    by simp
  ultimately show ?thesis
    by (simp add: decryptMockIntent_def new_Uint8Array_simps xorCipher_involution)
qed

section \<open>The claims\<close>




text \<open>
  Claim C2, as the specification states it, fails: \<open>reset_to_active\<close> has neither a clock
  nor a threshold among its parameters, the intent does not record when it was claimed, and
  the module has no abort code for NotStuck. An intent claimed at time 2000 is recovered in
  a transaction at the same time 2000.
\<close>

theorem reset_to_active_counterexample:
  "mark_executing intent0 (clock_at 2000) =
     Inr (intent0\<lparr>status := STATUS_EXECUTING\<rparr>, [IntentExecuting ([], 0) 2000]) \<and>
   reset_to_active (intent0\<lparr>status := STATUS_EXECUTING\<rparr>) = Inr intent0 \<and>
   run ledger1 [tx_of 9 2000 (MarkExecuting 0), tx_of 9 2000 (ResetToActive 0)] = ledger1"
proof (intro conjI)
  show "mark_executing intent0 (clock_at 2000) =
      Inr (intent0\<lparr>status := STATUS_EXECUTING\<rparr>, [IntentExecuting ([], 0) 2000])"
    by (simp add: mark_executing_eq input_defs)
  show "reset_to_active (intent0\<lparr>status := STATUS_EXECUTING\<rparr>) = Inr intent0"
    by (simp add: reset_to_active_def input_defs)
  show "run ledger1 [tx_of 9 2000 (MarkExecuting 0), tx_of 9 2000 (ResetToActive 0)] = ledger1"
    by (simp add: run_def exec_claim_ledger1 exec_reset_ledger1)
qed

text \<open>
  Claim C2, amended. \<open>reset_to_active\<close> refuses every intent that is not Executing with
  \<open>EInvalidStatus\<close>, and recovers every Executing intent, whatever the time since its claim:
  the status returns to Active and no other field changes, so recovering right after a
  claim gives back the intent as it was before the claim. The outcome of a recovery
  transaction depends on neither its clock nor its sender. A recovered intent can be
  claimed again while it has not expired.
\<close>

theorem reset_to_active_claim:
  "(status i \<noteq> STATUS_EXECUTING \<longrightarrow> reset_to_active i = Inl (Abort EInvalidStatus)) \<and>
   (status i = STATUS_EXECUTING \<longrightarrow> reset_to_active i = Inr (i\<lparr>status := STATUS_ACTIVE\<rparr>)) \<and>
   (\<forall>i' evs. mark_executing i c = Inr (i', evs) \<longrightarrow> reset_to_active i' = Inr i) \<and>
   (\<forall>i'. reset_to_active i = Inr i' \<and> timestamp_ms c < expires_at i \<longrightarrow>
      mark_executing i' c =
        Inr (i, [IntentExecuting (intent_uid i) (timestamp_ms c)])) \<and>
   (tx_call tx = ResetToActive k \<longrightarrow>
      exec l (tx\<lparr>tx_context := cx, tx_clock := c\<rparr>) = exec l tx)"
proof (intro conjI allI impI)
  assume "status i \<noteq> STATUS_EXECUTING"
  then show "reset_to_active i = Inl (Abort EInvalidStatus)"
    by (simp add: reset_to_active_def)
next
  assume "status i = STATUS_EXECUTING"
  then show "reset_to_active i = Inr (i\<lparr>status := STATUS_ACTIVE\<rparr>)"
    by (simp add: reset_to_active_def)
next
  fix i' evs
  assume "mark_executing i c = Inr (i', evs)"
  then have "status i = STATUS_ACTIVE" "i' = i\<lparr>status := STATUS_EXECUTING\<rparr>"
    by (auto simp: mark_executing_eq split: if_splits)
  then show "reset_to_active i' = Inr i"
    by (simp add: reset_to_active_def)
next
  fix i'
  assume "reset_to_active i = Inr i' \<and> timestamp_ms c < expires_at i"
  then have "status i = STATUS_EXECUTING" "i' = i\<lparr>status := STATUS_ACTIVE\<rparr>"
    "\<not> expires_at i \<le> timestamp_ms c"
    by (auto simp: reset_to_active_def not_le split: if_splits)
  then show "mark_executing i' c = Inr (i, [IntentExecuting (intent_uid i) (timestamp_ms c)])"
    by (simp add: mark_executing_eq)
next
  assume a: "tx_call tx = ResetToActive k"
  then have "tx_call (tx\<lparr>tx_context := cx, tx_clock := c\<rparr>) = ResetToActive k"
    by simp
  then show "exec l (tx\<lparr>tx_context := cx, tx_clock := c\<rparr>) = exec l tx"
    using a by (simp add: exec_ResetToActive)
qed

theorem reset_to_active_claim_witness:
  "reset_to_active intent0 = Inl (Abort EInvalidStatus) \<and>
   reset_to_active (intent0\<lparr>status := STATUS_EXECUTING\<rparr>) =
     Inr (intent0\<lparr>status := STATUS_EXECUTING, status := STATUS_ACTIVE\<rparr>) \<and>
   exec (ledger1\<lparr>intents := [intent0\<lparr>status := STATUS_EXECUTING\<rparr>]\<rparr>)
     ((tx_of 9 2000 (ResetToActive 0))\<lparr>tx_context := ctx_of 5, tx_clock := clock_at 4000\<rparr>) =
     ledger1"
proof -
  have 1: "status intent0 \<noteq> STATUS_EXECUTING"
    by (simp add: input_defs status_defs)
  have 2: "status (intent0\<lparr>status := STATUS_EXECUTING\<rparr>) = STATUS_EXECUTING"
    by simp
  have 3: "tx_call (tx_of 9 2000 (ResetToActive 0)) = ResetToActive 0"
    by (simp add: tx_of_def)
  have "exec (ledger1\<lparr>intents := [intent0\<lparr>status := STATUS_EXECUTING\<rparr>]\<rparr>)
     ((tx_of 9 2000 (ResetToActive 0))\<lparr>tx_context := ctx_of 5, tx_clock := clock_at 4000\<rparr>) =
     exec (ledger1\<lparr>intents := [intent0\<lparr>status := STATUS_EXECUTING\<rparr>]\<rparr>)
       (tx_of 9 2000 (ResetToActive 0))"
    using reset_to_active_claim [of _ _ "tx_of 9 2000 (ResetToActive 0)" 0] 3 by blast
  then show ?thesis
    using reset_to_active_claim [of intent0] 1
      reset_to_active_claim [of "intent0\<lparr>status := STATUS_EXECUTING\<rparr>"] 2
    by (simp add: exec_reset_ledger1)
qed

text \<open>
  Claim C3. \<open>mark_executing\<close> (the spec's \<open>claim_for_execution\<close>) checks the status first and
  the expiry second. An intent that is not Active is refused (abort code
  \<open>EAlreadyExecuting\<close>, the code's name for the spec's InvalidState at this operation); an
  Active intent with \<open>expires_at \<le> now\<close> is refused with \<open>EIntentExpired\<close>; so no intent with
  \<open>expires_at \<le> now\<close> is ever claimed. The function does not read the trigger, so this holds
  whatever the trigger predicate says. A successful claim sets the status to Executing, and
  every later claim on the claimed intent is refused, at any time, as long as the status
  stays Executing: on the ledger, any number of further claims on an Executing intent, by
  whatever senders, change nothing.
\<close>

theorem mark_executing_claim:
  "(status i \<noteq> STATUS_ACTIVE \<longrightarrow> mark_executing i c = Inl (Abort EAlreadyExecuting)) \<and>
   (status i = STATUS_ACTIVE \<and> expires_at i \<le> timestamp_ms c \<longrightarrow>
      mark_executing i c = Inl (Abort EIntentExpired)) \<and>
   (expires_at i \<le> timestamp_ms c \<longrightarrow> isl (mark_executing i c)) \<and>
   (status i = STATUS_ACTIVE \<and> timestamp_ms c < expires_at i \<longrightarrow>
      mark_executing i c =
        Inr (i\<lparr>status := STATUS_EXECUTING\<rparr>, [IntentExecuting (intent_uid i) (timestamp_ms c)])) \<and>
   (\<forall>i' evs. mark_executing i c = Inr (i', evs) \<longrightarrow>
      status i' = STATUS_EXECUTING \<and>
      (\<forall>c'. mark_executing i' c' = Inl (Abort EAlreadyExecuting))) \<and>
   (k < length (intents l) \<and> status (intents l ! k) = STATUS_EXECUTING \<and>
      (\<forall>tx \<in> set txs. tx_call tx = MarkExecuting k) \<longrightarrow>
      run l txs = l)"
proof (intro conjI allI impI)
  assume "status i \<noteq> STATUS_ACTIVE"
  then show "mark_executing i c = Inl (Abort EAlreadyExecuting)"
    by (simp add: mark_executing_eq)
next
  assume "status i = STATUS_ACTIVE \<and> expires_at i \<le> timestamp_ms c"
  then show "mark_executing i c = Inl (Abort EIntentExpired)"
    by (simp add: mark_executing_eq)
next
  assume "expires_at i \<le> timestamp_ms c"
  then show "isl (mark_executing i c)"
    by (simp add: mark_executing_eq)
next
  assume "status i = STATUS_ACTIVE \<and> timestamp_ms c < expires_at i"
  then show "mark_executing i c =
      Inr (i\<lparr>status := STATUS_EXECUTING\<rparr>, [IntentExecuting (intent_uid i) (timestamp_ms c)])"
    by (simp add: mark_executing_eq not_le)
next
  fix i' evs
  assume "mark_executing i c = Inr (i', evs)"
  then show "status i' = STATUS_EXECUTING"
    by (auto simp: mark_executing_eq split: if_splits)
next
  fix i' evs c'
  assume "mark_executing i c = Inr (i', evs)"
  then have "status i' = STATUS_EXECUTING"
    by (auto simp: mark_executing_eq split: if_splits)
  then show "mark_executing i' c' = Inl (Abort EAlreadyExecuting)"
    by (simp add: mark_executing_eq status_defs)
next
  assume "k < length (intents l) \<and> status (intents l ! k) = STATUS_EXECUTING \<and>
      (\<forall>tx \<in> set txs. tx_call tx = MarkExecuting k)"
  then show "run l txs = l"
    using claims_on_executing by blast
qed

theorem mark_executing_claim_witness:
  "mark_executing intent0 (clock_at 2000) =
     Inr (intent0\<lparr>status := STATUS_EXECUTING\<rparr>, [IntentExecuting ([], 0) 2000]) \<and>
   mark_executing (intent0\<lparr>status := STATUS_EXECUTING\<rparr>) (clock_at 2001) =
     Inl (Abort EAlreadyExecuting) \<and>
   mark_executing intent0 (clock_at 5000) = Inl (Abort EIntentExpired) \<and>
   mark_executing (intent0\<lparr>status := STATUS_CANCELLED\<rparr>) (clock_at 2000) =
     Inl (Abort EAlreadyExecuting)"
proof -
  have a: "status intent0 = STATUS_ACTIVE \<and> timestamp_ms (clock_at 2000) < expires_at intent0"
    by (simp add: intent0_def clock_at_def)
  have b: "status intent0 = STATUS_ACTIVE \<and> expires_at intent0 \<le> timestamp_ms (clock_at 5000)"
    by (simp add: intent0_def clock_at_def)
  have c: "status (intent0\<lparr>status := STATUS_CANCELLED\<rparr>) \<noteq> STATUS_ACTIVE"
    by (simp add: status_defs)
  have 1: "mark_executing intent0 (clock_at 2000) =
      Inr (intent0\<lparr>status := STATUS_EXECUTING\<rparr>,
           [IntentExecuting (intent_uid intent0) (timestamp_ms (clock_at 2000))])"
    using mark_executing_claim [of intent0 "clock_at 2000"] a by blast
  have 2: "mark_executing (intent0\<lparr>status := STATUS_EXECUTING\<rparr>) (clock_at 2001) =
      Inl (Abort EAlreadyExecuting)"
    using mark_executing_claim [of intent0 "clock_at 2000"] 1 by blast
  have 3: "mark_executing intent0 (clock_at 5000) = Inl (Abort EIntentExpired)"
    using mark_executing_claim [of intent0 "clock_at 5000"] b by blast
  have 4: "mark_executing (intent0\<lparr>status := STATUS_CANCELLED\<rparr>) (clock_at 2000) =
      Inl (Abort EAlreadyExecuting)"
    using mark_executing_claim [of "intent0\<lparr>status := STATUS_CANCELLED\<rparr>" "clock_at 2000"] c
    by blast
  have 5: "intent_uid intent0 = ([], 0)" "timestamp_ms (clock_at 2000) = 2000"
    by (simp_all add: intent0_def clock_at_def)
  show ?thesis
    using 1 2 3 4 unfolding 5 by (intro conjI)
qed

text \<open>
  Claim C4. \<open>cancel_intent\<close> checks the caller first and the status second: a caller other
  than the owner is refused with \<open>ENotOwner\<close>, the owner of an intent that is not Active
  with \<open>EInvalidStatus\<close>. A successful call implies that the caller is the owner and the
  status was Active; it sets the status to Cancelled and takes one off \<open>active_intents\<close>.
  A refused call leaves the ledger as it was. On every ledger reached from \<open>init\<close> the owner's
  cancellation of an Active intent does succeed.
\<close>

theorem cancel_intent_claim:
  "(sender cx \<noteq> owner i \<longrightarrow> cancel_intent r i c cx = Inl (Abort ENotOwner)) \<and>
   (sender cx = owner i \<and> status i \<noteq> STATUS_ACTIVE \<longrightarrow>
      cancel_intent r i c cx = Inl (Abort EInvalidStatus)) \<and>
   (\<forall>r' i' evs. cancel_intent r i c cx = Inr (r', i', evs) \<longrightarrow>
      sender cx = owner i \<and> status i = STATUS_ACTIVE \<and>
      i' = i\<lparr>status := STATUS_CANCELLED\<rparr> \<and>
      r' = r\<lparr>active_intents := active_intents r - 1\<rparr> \<and>
      unat (active_intents r') + 1 = unat (active_intents r)) \<and>
   (sender cx = owner i \<and> status i = STATUS_ACTIVE \<and> active_intents r \<noteq> 0 \<longrightarrow>
      cancel_intent r i c cx =
        Inr (r\<lparr>active_intents := active_intents r - 1\<rparr>, i\<lparr>status := STATUS_CANCELLED\<rparr>,
             [IntentCancelled (intent_uid i) (timestamp_ms c)])) \<and>
   (tx_call tx = CancelIntent k \<and> k < length (intents l) \<and>
      (sender (tx_context tx) \<noteq> owner (intents l ! k) \<or>
       status (intents l ! k) \<noteq> STATUS_ACTIVE) \<longrightarrow>
      exec l tx = l) \<and>
   (tx_call tx = CancelIntent k \<and> k < length (intents (run (genesis ctx) txs)) \<and>
      sender (tx_context tx) = owner (intents (run (genesis ctx) txs) ! k) \<and>
      status (intents (run (genesis ctx) txs) ! k) = STATUS_ACTIVE \<longrightarrow>
      status (intents (exec (run (genesis ctx) txs) tx) ! k) = STATUS_CANCELLED)"
proof (intro conjI allI impI)
  assume "sender cx \<noteq> owner i"
  then show "cancel_intent r i c cx = Inl (Abort ENotOwner)"
    by (simp add: cancel_intent_eq)
next
  assume "sender cx = owner i \<and> status i \<noteq> STATUS_ACTIVE"
  then show "cancel_intent r i c cx = Inl (Abort EInvalidStatus)"
    by (simp add: cancel_intent_eq)
next
  fix r' i' evs
  assume a: "cancel_intent r i c cx = Inr (r', i', evs)"
  then show "sender cx = owner i" "status i = STATUS_ACTIVE"
    "i' = i\<lparr>status := STATUS_CANCELLED\<rparr>" "r' = r\<lparr>active_intents := active_intents r - 1\<rparr>"
    by (auto simp: cancel_intent_eq split: if_splits)
  from a show "unat (active_intents r') + 1 = unat (active_intents r)"
    by (auto simp: cancel_intent_eq unat_pred_Suc split: if_splits)
next
  assume "sender cx = owner i \<and> status i = STATUS_ACTIVE \<and> active_intents r \<noteq> 0"
  then show "cancel_intent r i c cx =
      Inr (r\<lparr>active_intents := active_intents r - 1\<rparr>, i\<lparr>status := STATUS_CANCELLED\<rparr>,
           [IntentCancelled (intent_uid i) (timestamp_ms c)])"
    by (simp add: cancel_intent_eq)
next
  assume "tx_call tx = CancelIntent k \<and> k < length (intents l) \<and>
      (sender (tx_context tx) \<noteq> owner (intents l ! k) \<or>
       status (intents l ! k) \<noteq> STATUS_ACTIVE)"
  then show "exec l tx = l"
    by (auto simp: exec_Cancel cancel_intent_eq)
next
  let ?l = "run (genesis ctx) txs"
  assume a: "tx_call tx = CancelIntent k \<and> k < length (intents ?l) \<and>
      sender (tx_context tx) = owner (intents ?l ! k) \<and>
      status (intents ?l ! k) = STATUS_ACTIVE"
  then have "active_intents (registry ?l) \<noteq> 0"
    by (intro reachable_active_nonzero [of k]) (simp_all add: counted_active_simps)
  then show "status (intents (exec ?l tx) ! k) = STATUS_CANCELLED"
    using a by (simp add: exec_Cancel cancel_intent_eq)
qed

theorem cancel_intent_claim_witness:
  "cancel_intent (registry ledger1) intent0 (clock_at 2000) (ctx_of 7) =
     Inr ((registry ledger1)\<lparr>active_intents := 0\<rparr>, intent0\<lparr>status := STATUS_CANCELLED\<rparr>,
          [IntentCancelled ([], 0) 2000]) \<and>
   cancel_intent (registry ledger1) intent0 (clock_at 2000) (ctx_of 8) = Inl (Abort ENotOwner) \<and>
   cancel_intent (registry ledger1) (intent0\<lparr>status := STATUS_EXECUTING\<rparr>) (clock_at 2000)
     (ctx_of 7) = Inl (Abort EInvalidStatus) \<and>
   exec ledger1 (tx_of 8 2000 (CancelIntent 0)) = ledger1"
proof -
  have 1: "sender (ctx_of 7) = owner intent0 \<and> status intent0 = STATUS_ACTIVE \<and>
      active_intents (registry ledger1) \<noteq> 0"
    by (simp add: input_defs)
  have 2: "sender (ctx_of 8) \<noteq> owner intent0"
    by (simp add: input_defs)
  have 3: "sender (ctx_of 7) = owner (intent0\<lparr>status := STATUS_EXECUTING\<rparr>) \<and>
      status (intent0\<lparr>status := STATUS_EXECUTING\<rparr>) \<noteq> STATUS_ACTIVE"
    by (simp add: input_defs status_defs)
  have 4: "tx_call (tx_of 8 2000 (CancelIntent 0)) = CancelIntent 0 \<and>
      0 < length (intents ledger1) \<and>
      (sender (tx_context (tx_of 8 2000 (CancelIntent 0))) \<noteq> owner (intents ledger1 ! 0) \<or>
       status (intents ledger1 ! 0) \<noteq> STATUS_ACTIVE)"
    by (simp add: input_defs)
  have v: "active_intents (registry ledger1) - 1 = 0" "intent_uid intent0 = ([], 0)"
    "timestamp_ms (clock_at 2000) = 2000"
    by (simp_all add: input_defs)
  have "cancel_intent (registry ledger1) intent0 (clock_at 2000) (ctx_of 7) =
     Inr ((registry ledger1)\<lparr>active_intents := active_intents (registry ledger1) - 1\<rparr>,
          intent0\<lparr>status := STATUS_CANCELLED\<rparr>,
          [IntentCancelled (intent_uid intent0) (timestamp_ms (clock_at 2000))])"
    using cancel_intent_claim [of "ctx_of 7" intent0 "registry ledger1" "clock_at 2000"] 1
    by blast
  moreover have "cancel_intent (registry ledger1) intent0 (clock_at 2000) (ctx_of 8) =
      Inl (Abort ENotOwner)"
    using cancel_intent_claim [of "ctx_of 8" intent0 "registry ledger1" "clock_at 2000"] 2
    by blast
  moreover have "cancel_intent (registry ledger1) (intent0\<lparr>status := STATUS_EXECUTING\<rparr>)
      (clock_at 2000) (ctx_of 7) = Inl (Abort EInvalidStatus)"
    using cancel_intent_claim [of "ctx_of 7" "intent0\<lparr>status := STATUS_EXECUTING\<rparr>"
        "registry ledger1" "clock_at 2000"] 3
    by blast
  moreover have "exec ledger1 (tx_of 8 2000 (CancelIntent 0)) = ledger1"
    using cancel_intent_claim [of _ _ _ _ "tx_of 8 2000 (CancelIntent 0)" 0 ledger1] 4
    by blast
  ultimately show ?thesis
    unfolding v by (intro conjI)
qed

text \<open>
  Claim C5. \<open>create_intent\<close> checks the expiry first and the trigger type second: it aborts
  with \<open>EIntentExpired\<close> (the spec's InvalidExpiry) when \<open>expires_at \<le> now\<close>, and with
  \<open>EInvalidTriggerType\<close> when the expiry is in the future and the trigger type is neither
  \<open>TRIGGER_PRICE_BELOW\<close> nor \<open>TRIGGER_PRICE_ABOVE\<close>; either way no intent is created. The
  intent a successful call creates is Active, owned by the sender, created now, expiring
  later, and both \<open>total_intents\<close> and \<open>active_intents\<close> have grown by one. The call succeeds
  whenever the two checks pass and the counters have room.
\<close>

theorem create_intent_claim:
  "(ex \<le> timestamp_ms c \<longrightarrow>
      create_intent r data tt tv ph ex c cx = Inl (Abort EIntentExpired)) \<and>
   (timestamp_ms c < ex \<and> tt \<noteq> TRIGGER_PRICE_BELOW \<and> tt \<noteq> TRIGGER_PRICE_ABOVE \<longrightarrow>
      create_intent r data tt tv ph ex c cx = Inl (Abort EInvalidTriggerType)) \<and>
   (ex \<le> timestamp_ms c \<or> (tt \<noteq> TRIGGER_PRICE_BELOW \<and> tt \<noteq> TRIGGER_PRICE_ABOVE) \<longrightarrow>
      isl (create_intent r data tt tv ph ex c cx)) \<and>
   (\<forall>r' i cx' evs. create_intent r data tt tv ph ex c cx = Inr (r', i, cx', evs) \<longrightarrow>
      status i = STATUS_ACTIVE \<and> owner i = sender cx \<and>
      created_at i = timestamp_ms c \<and> expires_at i = ex \<and> created_at i < expires_at i \<and>
      (trigger_type i = TRIGGER_PRICE_BELOW \<or> trigger_type i = TRIGGER_PRICE_ABOVE) \<and>
      unat (total_intents r') = unat (total_intents r) + 1 \<and>
      unat (active_intents r') = unat (active_intents r) + 1 \<and>
      executed_intents r' = executed_intents r) \<and>
   (timestamp_ms c < ex \<and> (tt = TRIGGER_PRICE_BELOW \<or> tt = TRIGGER_PRICE_ABOVE) \<and>
      unat (total_intents r) + 1 < 2 ^ 64 \<and> unat (active_intents r) + 1 < 2 ^ 64 \<longrightarrow>
      \<not> isl (create_intent r data tt tv ph ex c cx))"
proof (intro conjI allI impI)
  assume "ex \<le> timestamp_ms c"
  then show "create_intent r data tt tv ph ex c cx = Inl (Abort EIntentExpired)"
    by (simp add: create_intent_eq)
next
  assume "timestamp_ms c < ex \<and> tt \<noteq> TRIGGER_PRICE_BELOW \<and> tt \<noteq> TRIGGER_PRICE_ABOVE"
  then have "\<not> ex \<le> timestamp_ms c" "TRIGGER_PRICE_ABOVE < tt"
    using trigger_type_enumerated [of tt] by (simp_all add: not_le)
  then show "create_intent r data tt tv ph ex c cx = Inl (Abort EInvalidTriggerType)"
    by (simp add: create_intent_eq)
next
  assume "ex \<le> timestamp_ms c \<or> (tt \<noteq> TRIGGER_PRICE_BELOW \<and> tt \<noteq> TRIGGER_PRICE_ABOVE)"
  then have "ex \<le> timestamp_ms c \<or> TRIGGER_PRICE_ABOVE < tt"
    using trigger_type_enumerated [of tt] by (auto simp: not_le)
  then show "isl (create_intent r data tt tv ph ex c cx)"
    by (auto simp: create_intent_eq)
next
  fix r' i cx' evs
  assume a: "create_intent r data tt tv ph ex c cx = Inr (r', i, cx', evs)"
  then have ok: "\<not> ex \<le> timestamp_ms c" "\<not> TRIGGER_PRICE_ABOVE < tt"
    "unat (total_intents r) + 1 < 2 ^ 64" "unat (active_intents r) + 1 < 2 ^ 64"
    by (auto simp: create_intent_eq split: if_splits)
  from a ok have i: "i = \<lparr>intent_uid = (tx_hash cx, ids_created cx), owner = sender cx,
                  encrypted_data = data, created_at = timestamp_ms c, expires_at = ex,
                  status = STATUS_ACTIVE, trigger_type = tt, trigger_value = tv,
                  pair_hash = ph, executed_at = None, executed_price = None,
                  tx_digest = None\<rparr>"
    and r': "r' = r\<lparr>total_intents := total_intents r + 1,
                     active_intents := active_intents r + 1\<rparr>"
    by (simp_all add: create_intent_eq)
  show "status i = STATUS_ACTIVE" "owner i = sender cx" "created_at i = timestamp_ms c"
    "expires_at i = ex" "executed_intents r' = executed_intents r"
    by (simp_all add: i r')
  show "created_at i < expires_at i"
    using ok(1) by (simp add: i not_le)
  show "trigger_type i = TRIGGER_PRICE_BELOW \<or> trigger_type i = TRIGGER_PRICE_ABOVE"
    using ok(2) trigger_type_enumerated [of tt] by (simp add: i not_less)
  show "unat (total_intents r') = unat (total_intents r) + 1"
    using unat_succ [OF ok(3)] by (simp add: r')
  show "unat (active_intents r') = unat (active_intents r) + 1"
    using unat_succ [OF ok(4)] by (simp add: r')
next
  assume a: "timestamp_ms c < ex \<and> (tt = TRIGGER_PRICE_BELOW \<or> tt = TRIGGER_PRICE_ABOVE) \<and>
      unat (total_intents r) + 1 < 2 ^ 64 \<and> unat (active_intents r) + 1 < 2 ^ 64"
  then have "\<not> ex \<le> timestamp_ms c" "\<not> TRIGGER_PRICE_ABOVE < tt"
    using trigger_type_enumerated [of tt] by (simp_all add: not_le not_less)
  then show "\<not> isl (create_intent r data tt tv ph ex c cx)"
    using a by (simp add: create_intent_eq)
qed

theorem create_intent_claim_witness:
  "\<not> isl (create_intent registry0 [1, 2, 3] TRIGGER_PRICE_BELOW 100 [9] 5000 (clock_at 1000)
     (ctx_of 7)) \<and>
   create_intent registry0 [1, 2, 3] TRIGGER_PRICE_BELOW 100 [9] 1000 (clock_at 1000) (ctx_of 7)
     = Inl (Abort EIntentExpired) \<and>
   create_intent registry0 [1, 2, 3] 2 100 [9] 5000 (clock_at 1000) (ctx_of 7)
     = Inl (Abort EInvalidTriggerType)"
proof -
  have 1: "timestamp_ms (clock_at 1000) < (5000 :: u64) \<and>
      (TRIGGER_PRICE_BELOW = TRIGGER_PRICE_BELOW \<or> TRIGGER_PRICE_BELOW = TRIGGER_PRICE_ABOVE) \<and>
      unat (total_intents registry0) + 1 < 2 ^ 64 \<and>
      unat (active_intents registry0) + 1 < 2 ^ 64"
    by (simp add: registry0_def init_def object_new_def input_defs)
  have 2: "(1000 :: u64) \<le> timestamp_ms (clock_at 1000)"
    by (simp add: input_defs)
  have 3: "timestamp_ms (clock_at 1000) < (5000 :: u64) \<and> (2 :: u8) \<noteq> TRIGGER_PRICE_BELOW \<and>
      (2 :: u8) \<noteq> TRIGGER_PRICE_ABOVE"
    by (simp add: input_defs TRIGGER_PRICE_BELOW_def TRIGGER_PRICE_ABOVE_def)
  show ?thesis
    using create_intent_claim [of 5000 "clock_at 1000" registry0 "[1, 2, 3]" TRIGGER_PRICE_BELOW
        100 "[9]" "ctx_of 7"] 1
      create_intent_claim [of 1000 "clock_at 1000" registry0 "[1, 2, 3]" TRIGGER_PRICE_BELOW
        100 "[9]" "ctx_of 7"] 2
      create_intent_claim [of 5000 "clock_at 1000" registry0 "[1, 2, 3]" 2
        100 "[9]" "ctx_of 7"] 3
    by blast
qed

text \<open>
  Claim C6. \<open>mark_executed\<close> (the spec's \<open>finalize_success\<close>) refuses every intent that is not
  Executing with \<open>EInvalidStatus\<close>. A successful call sets the status to Executed, fills
  \<open>executed_at\<close> with the clock, \<open>executed_price\<close> and \<open>tx_digest\<close> with its arguments, takes
  one off \<open>active_intents\<close> and adds one to \<open>executed_intents\<close>; it succeeds whenever the
  intent is Executing and the counters allow the two updates. On every ledger reached from
  \<open>init\<close> the three fields are present on the Executed intents and absent on all others.
\<close>

theorem mark_executed_claim:
  "(status i \<noteq> STATUS_EXECUTING \<longrightarrow> mark_executed r i p d c = Inl (Abort EInvalidStatus)) \<and>
   (\<forall>r' i' evs. mark_executed r i p d c = Inr (r', i', evs) \<longrightarrow>
      status i = STATUS_EXECUTING \<and> status i' = STATUS_EXECUTED \<and>
      executed_at i' = Some (timestamp_ms c) \<and> executed_price i' = Some p \<and>
      tx_digest i' = Some d \<and>
      unat (active_intents r') + 1 = unat (active_intents r) \<and>
      unat (executed_intents r') = unat (executed_intents r) + 1 \<and>
      total_intents r' = total_intents r) \<and>
   (status i = STATUS_EXECUTING \<and> active_intents r \<noteq> 0 \<and>
      unat (executed_intents r) + 1 < 2 ^ 64 \<longrightarrow>
      \<not> isl (mark_executed r i p d c)) \<and>
   list_all (\<lambda>j. if status j = STATUS_EXECUTED then execution_recorded j else execution_empty j)
     (intents (run (genesis ctx) txs))"
proof (intro conjI allI impI)
  assume "status i \<noteq> STATUS_EXECUTING"
  then show "mark_executed r i p d c = Inl (Abort EInvalidStatus)"
    by (simp add: mark_executed_eq)
next
  fix r' i' evs
  assume a: "mark_executed r i p d c = Inr (r', i', evs)"
  then have ok: "status i = STATUS_EXECUTING" "active_intents r \<noteq> 0"
    "unat (executed_intents r) + 1 < 2 ^ 64"
    by (auto simp: mark_executed_eq split: if_splits)
  from a ok have i': "i' = i\<lparr>status := STATUS_EXECUTED, executed_at := Some (timestamp_ms c),
                  executed_price := Some p, tx_digest := Some d\<rparr>"
    and r': "r' = r\<lparr>active_intents := active_intents r - 1,
                   executed_intents := executed_intents r + 1\<rparr>"
    by (simp_all add: mark_executed_eq)
  show "status i = STATUS_EXECUTING"
    by (fact ok(1))
  show "status i' = STATUS_EXECUTED" "executed_at i' = Some (timestamp_ms c)"
    "executed_price i' = Some p" "tx_digest i' = Some d" "total_intents r' = total_intents r"
    by (simp_all add: i' r')
  show "unat (active_intents r') + 1 = unat (active_intents r)"
    using unat_pred [OF ok(2)] by (simp add: r')
  show "unat (executed_intents r') = unat (executed_intents r) + 1"
    using unat_succ [OF ok(3)] by (simp add: r')
next
  assume "status i = STATUS_EXECUTING \<and> active_intents r \<noteq> 0 \<and>
      unat (executed_intents r) + 1 < 2 ^ 64"
  then show "\<not> isl (mark_executed r i p d c)"
    by (simp add: mark_executed_eq)
next
  have "list_all execution_consistent (intents (run (genesis ctx) txs))"
    using genesis_consistent by (rule run_consistent)
  then show "list_all
      (\<lambda>j. if status j = STATUS_EXECUTED then execution_recorded j else execution_empty j)
      (intents (run (genesis ctx) txs))"
    by (simp add: list_all_iff execution_consistent_def)
qed

theorem mark_executed_claim_witness:
  "mark_executed (registry ledger1) intent0 95 [4, 5] (clock_at 2100) =
     Inl (Abort EInvalidStatus) \<and>
   \<not> isl (mark_executed (registry ledger1) (intent0\<lparr>status := STATUS_EXECUTING\<rparr>) 95 [4, 5]
     (clock_at 2100)) \<and>
   run (genesis (ctx_of 0))
     [tx_of 7 1000 (CreateIntent [1, 2, 3] TRIGGER_PRICE_BELOW 100 [9] 5000),
      tx_of 9 2000 (MarkExecuting 0), tx_of 9 2100 (MarkExecuted 0 95 [4, 5])] =
     \<lparr>registry = \<lparr>registry_uid = ([], 0), total_intents = 1, active_intents = 0,
        executed_intents = 1\<rparr>,
      intents = [intent0\<lparr>status := STATUS_EXECUTED, executed_at := Some 2100,
        executed_price := Some 95, tx_digest := Some [4, 5]\<rparr>]\<rparr> \<and>
   list_all (\<lambda>j. if status j = STATUS_EXECUTED then execution_recorded j else execution_empty j)
     (intents (run (genesis (ctx_of 0))
       [tx_of 7 1000 (CreateIntent [1, 2, 3] TRIGGER_PRICE_BELOW 100 [9] 5000),
        tx_of 9 2000 (MarkExecuting 0), tx_of 9 2100 (MarkExecuted 0 95 [4, 5])]))"
proof -
  have 1: "status intent0 \<noteq> STATUS_EXECUTING"
    by (simp add: input_defs status_defs)
  have 2: "status (intent0\<lparr>status := STATUS_EXECUTING\<rparr>) = STATUS_EXECUTING \<and>
      active_intents (registry ledger1) \<noteq> 0 \<and>
      unat (executed_intents (registry ledger1)) + 1 < 2 ^ 64"
    by (simp add: input_defs)
  have 3: "run (genesis (ctx_of 0))
     [tx_of 7 1000 (CreateIntent [1, 2, 3] TRIGGER_PRICE_BELOW 100 [9] 5000),
      tx_of 9 2000 (MarkExecuting 0), tx_of 9 2100 (MarkExecuted 0 95 [4, 5])] =
     \<lparr>registry = \<lparr>registry_uid = ([], 0), total_intents = 1, active_intents = 0,
        executed_intents = 1\<rparr>,
      intents = [intent0\<lparr>status := STATUS_EXECUTED, executed_at := Some 2100,
        executed_price := Some 95, tx_digest := Some [4, 5]\<rparr>]\<rparr>"
    by (simp add: run_def genesis_create exec_claim_ledger1 exec_done_ledger1)
  show ?thesis
    using mark_executed_claim [of intent0 "registry ledger1" 95 "[4, 5]" "clock_at 2100"
        "ctx_of 0" "[tx_of 7 1000 (CreateIntent [1, 2, 3] TRIGGER_PRICE_BELOW 100 [9] 5000),
        tx_of 9 2000 (MarkExecuting 0), tx_of 9 2100 (MarkExecuted 0 95 [4, 5])]"] 1
      mark_executed_claim [of "intent0\<lparr>status := STATUS_EXECUTING\<rparr>" "registry ledger1" 95
        "[4, 5]" "clock_at 2100"] 2 3
    by blast
qed

text \<open>
  Claim C7. Whatever transaction runs on whatever ledger, the status of an existing intent
  stays as it is or moves along one edge of the specification's graph; no function ever
  writes the status Expired (that edge is lazy: readers compare \<open>expires_at\<close> with the clock);
  an intent in a terminal status is never changed again by any run, so a Cancelled intent
  never becomes Executing; and the statuses observed along any run form a path of the graph.
\<close>

theorem status_graph_claim:
  assumes "k < length (intents l)"
  shows "(status (intents (exec l tx) ! k) = status (intents l ! k) \<or>
          spec_edge (status (intents l ! k)) (status (intents (exec l tx) ! k))) \<and>
         (status (intents (exec l tx) ! k) = STATUS_EXPIRED \<longrightarrow>
            status (intents l ! k) = STATUS_EXPIRED) \<and>
         (spec_terminal (status (intents l ! k)) \<longrightarrow>
            intents (run l txs) ! k = intents l ! k) \<and>
         (status (intents l ! k) = STATUS_CANCELLED \<longrightarrow>
            status (intents (run l txs) ! k) \<noteq> STATUS_EXECUTING) \<and>
         successively (\<lambda>s s'. s = s' \<or> spec_edge s s') (observed l txs k)"
proof (intro conjI impI)
  show "status (intents (exec l tx) ! k) = status (intents l ! k) \<or>
      spec_edge (status (intents l ! k)) (status (intents (exec l tx) ! k))"
    using assms by (rule exec_status)
next
  assume "status (intents (exec l tx) ! k) = STATUS_EXPIRED"
  then show "status (intents l ! k) = STATUS_EXPIRED"
    using exec_nth [OF assms, of tx] moved_not_expired by metis
next
  assume "spec_terminal (status (intents l ! k))"
  then show "intents (run l txs) ! k = intents l ! k"
    using assms run_terminal by blast
next
  assume c: "status (intents l ! k) = STATUS_CANCELLED"
  then have "spec_terminal (status (intents l ! k))"
    by (simp add: spec_terminal_def)
  then have "intents (run l txs) ! k = intents l ! k"
    using assms run_terminal by blast
  then show "status (intents (run l txs) ! k) \<noteq> STATUS_EXECUTING"
    using c by (simp add: status_defs)
next
  show "successively (\<lambda>s s'. s = s' \<or> spec_edge s s') (observed l txs k)"
    using assms by (rule observed_graph)
qed

theorem status_graph_claim_witness:
  "0 < length (intents ledger1) \<and>
   observed ledger1
     [tx_of 9 2000 (MarkExecuting 0), tx_of 9 2000 (ResetToActive 0),
      tx_of 7 2500 (CancelIntent 0), tx_of 9 3000 (MarkExecuting 0)] 0 =
     [STATUS_ACTIVE, STATUS_EXECUTING, STATUS_ACTIVE, STATUS_CANCELLED, STATUS_CANCELLED] \<and>
   successively (\<lambda>s s'. s = s' \<or> spec_edge s s')
     (observed ledger1
       [tx_of 9 2000 (MarkExecuting 0), tx_of 9 2000 (ResetToActive 0),
        tx_of 7 2500 (CancelIntent 0), tx_of 9 3000 (MarkExecuting 0)] 0)"
proof -
  have len: "0 < length (intents ledger1)"
    by (simp add: ledger1_def)
  have obs: "observed ledger1
     [tx_of 9 2000 (MarkExecuting 0), tx_of 9 2000 (ResetToActive 0),
      tx_of 7 2500 (CancelIntent 0), tx_of 9 3000 (MarkExecuting 0)] 0 =
     [STATUS_ACTIVE, STATUS_EXECUTING, STATUS_ACTIVE, STATUS_CANCELLED, STATUS_CANCELLED]"
    by (simp add: exec_def well_addressed_def mark_executing_eq reset_to_active_def
        cancel_intent_eq input_defs status_defs)
  show ?thesis
    using len obs status_graph_claim [OF len] by blast
qed

text \<open>
  Claim C8, as the specification states it, fails on three inputs. \<open>fetchAllPrices\<close> stores 0
  for a pair whose price could not be fetched, and skips every order whose current price is
  falsy: a pending buy limit order with trigger price 5, a price\_below trigger by
  \<open>createOrder\<close>'s own mapping, stays pending at the current price 0, although \<open>0 \<le> 5\<close>.
  A pending buy stop-loss with trigger price 5, a price\_below trigger by the same mapping,
  stays pending at the current price 4, although \<open>4 \<le> 5\<close>: the \<open>switch\<close> compares
  \<open>current \<ge> trigger\<close> for it. A pending buy take-profit with trigger price 5, a price\_above
  trigger by the mapping, stays pending at the current price 6, although \<open>6 \<ge> 5\<close>: the
  \<open>switch\<close> compares \<open>current \<le> trigger\<close> for it.
\<close>

theorem trigger_check_counterexample:
  "order_status order0 = Pending \<and>
   createOrder_triggerType (order_type order0) (order_side order0) = TRIGGER_PRICE_BELOW \<and>
   spec_trigger_matches TRIGGER_PRICE_BELOW (Num 0) (triggerPrice order0) \<and>
   checkTrigger (prices_at (Num 0)) (Num 2000) order0 = order0 \<and>
   order_status (order0\<lparr>order_type := StopLoss\<rparr>) = Pending \<and>
   createOrder_triggerType StopLoss Buy = TRIGGER_PRICE_BELOW \<and>
   spec_trigger_matches TRIGGER_PRICE_BELOW (Num 4) (Num 5) \<and>
   checkTrigger (prices_at (Num 4)) (Num 2000) (order0\<lparr>order_type := StopLoss\<rparr>) =
     order0\<lparr>order_type := StopLoss\<rparr> \<and>
   order_status (order0\<lparr>order_type := TakeProfit\<rparr>) = Pending \<and>
   createOrder_triggerType TakeProfit Buy = TRIGGER_PRICE_ABOVE \<and>
   spec_trigger_matches TRIGGER_PRICE_ABOVE (Num 6) (Num 5) \<and>
   checkTrigger (prices_at (Num 6)) (Num 2000) (order0\<lparr>order_type := TakeProfit\<rparr>) =
     order0\<lparr>order_type := TakeProfit\<rparr>"
  by (simp add: order0_def prices_at_def checkTrigger_def shouldTrigger_def falsy_def
      createOrder_triggerType_def spec_trigger_matches_def num_le_def num_ge_def
      TRIGGER_PRICE_BELOW_def TRIGGER_PRICE_ABOVE_def)

text \<open>
  Claim C8, amended. For every pending order whose pair has a current price that is not
  falsy (present, not NaN, not zero), the order is triggered exactly when the inclusive
  comparison of its type and side holds: \<open>current \<le> trigger\<close>, the specification's PriceBelow
  predicate, for a buy limit, a sell stop-loss and a buy take-profit; \<open>current \<ge> trigger\<close>,
  the PriceAbove predicate, for a sell limit, a buy stop-loss and a sell take-profit. For
  limit orders and for sell orders this is the predicate of the trigger type \<open>createOrder\<close>
  assigns. At \<open>current = trigger\<close> every such order triggers, and an order that does not
  trigger is returned unchanged. Whatever the prices, an order that is not pending, or whose
  pair has a falsy current price (missing, NaN or zero), is returned unchanged, so it does
  not trigger.
\<close>

theorem trigger_check_claim:
  "(order_status o' = Pending \<and> newPrices (order_pair o') = Some p \<and> \<not> falsy (Some p) \<longrightarrow>
      (order_type o' = Limit \<and> order_side o' = Buy \<or>
       order_type o' = StopLoss \<and> order_side o' = Sell \<or>
       order_type o' = TakeProfit \<and> order_side o' = Buy \<longrightarrow>
         (order_status (checkTrigger newPrices now o') = Triggered \<longleftrightarrow>
          num_le p (triggerPrice o'))) \<and>
      (order_type o' = Limit \<and> order_side o' = Sell \<or>
       order_type o' = StopLoss \<and> order_side o' = Buy \<or>
       order_type o' = TakeProfit \<and> order_side o' = Sell \<longrightarrow>
         (order_status (checkTrigger newPrices now o') = Triggered \<longleftrightarrow>
          num_ge p (triggerPrice o'))) \<and>
      (order_type o' = Limit \<and> order_side o' = Buy \<or>
       order_type o' = StopLoss \<and> order_side o' = Sell \<or>
       order_type o' = TakeProfit \<and> order_side o' = Buy \<longrightarrow>
         (order_status (checkTrigger newPrices now o') = Triggered \<longleftrightarrow>
          spec_trigger_matches TRIGGER_PRICE_BELOW p (triggerPrice o'))) \<and>
      (order_type o' = Limit \<and> order_side o' = Sell \<or>
       order_type o' = StopLoss \<and> order_side o' = Buy \<or>
       order_type o' = TakeProfit \<and> order_side o' = Sell \<longrightarrow>
         (order_status (checkTrigger newPrices now o') = Triggered \<longleftrightarrow>
          spec_trigger_matches TRIGGER_PRICE_ABOVE p (triggerPrice o'))) \<and>
      (order_type o' = Limit \<or> order_side o' = Sell \<longrightarrow>
         (order_status (checkTrigger newPrices now o') = Triggered \<longleftrightarrow>
          spec_trigger_matches (createOrder_triggerType (order_type o') (order_side o')) p
            (triggerPrice o'))) \<and>
      (p = triggerPrice o' \<longrightarrow> order_status (checkTrigger newPrices now o') = Triggered) \<and>
      (order_status (checkTrigger newPrices now o') \<noteq> Triggered \<longrightarrow>
         checkTrigger newPrices now o' = o')) \<and>
   (order_status q \<noteq> Pending \<or> falsy (prices (order_pair q)) \<longrightarrow>
      checkTrigger prices now q = q) \<and>
   (order_status q = Pending \<and> falsy (prices (order_pair q)) \<longrightarrow>
      order_status (checkTrigger prices now q) = Pending)"
  (is "(?H \<longrightarrow> ?B) \<and> _ \<and> _")
proof (intro conjI)
  show "?H \<longrightarrow> ?B"
  proof
    assume "?H"
    then have "order_status o' = Pending" "newPrices (order_pair o') = Some p"
      "\<not> falsy (Some p)"
      by simp_all
    then show "?B"
      by (rule checkTrigger_truthy)
  qed
  show "order_status q \<noteq> Pending \<or> falsy (prices (order_pair q)) \<longrightarrow>
      checkTrigger prices now q = q"
    by (auto simp: checkTrigger_def)
  then show "order_status q = Pending \<and> falsy (prices (order_pair q)) \<longrightarrow>
      order_status (checkTrigger prices now q) = Pending"
    by simp
qed

theorem trigger_check_claim_witness:
  "order_status order0 = Pending \<and> prices_at (Num 5) (order_pair order0) = Some (Num 5) \<and>
   \<not> falsy (Some (Num 5)) \<and>
   order_status (checkTrigger (prices_at (Num 5)) (Num 2000) order0) = Triggered \<and>
   order_status (checkTrigger (prices_at (Num 5)) (Num 2000)
     (order0\<lparr>order_side := Sell\<rparr>)) = Triggered \<and>
   order_status (checkTrigger (prices_at (Num 6)) (Num 2000) order0) = Pending \<and>
   falsy (prices_at (Num 0) (order_pair order0)) \<and>
   checkTrigger (prices_at (Num 0)) (Num 2000) order0 = order0 \<and>
   falsy ((\<lambda>name. None) (order_pair order0)) \<and>
   checkTrigger (\<lambda>name. None) (Num 2000) order0 = order0"
proof -
  have a: "order_status order0 = Pending" "prices_at (Num 5) (order_pair order0) = Some (Num 5)"
    "\<not> falsy (Some (Num 5))" "Num 5 = triggerPrice order0"
    by (simp_all add: order0_def prices_at_def falsy_def)
  have b: "order_status (order0\<lparr>order_side := Sell\<rparr>) = Pending"
    "prices_at (Num 5) (order_pair (order0\<lparr>order_side := Sell\<rparr>)) = Some (Num 5)"
    "Num 5 = triggerPrice (order0\<lparr>order_side := Sell\<rparr>)"
    by (simp_all add: order0_def prices_at_def)
  have c: "prices_at (Num 6) (order_pair order0) = Some (Num 6)" "\<not> falsy (Some (Num 6))"
    "order_type order0 = Limit \<and> order_side order0 = Buy"
    "\<not> num_le (Num 6) (triggerPrice order0)"
    by (simp_all add: order0_def prices_at_def falsy_def num_le_def)
  have d: "falsy (prices_at (Num 0) (order_pair order0))"
    "falsy ((\<lambda>name. None) (order_pair order0))"
    by (simp_all add: order0_def prices_at_def falsy_def)
  note at5 = trigger_check_claim [of order0 "prices_at (Num 5)" "Num 5" "Num 2000",
      THEN conjunct1, THEN mp, OF conjI [OF a(1) conjI [OF a(2) a(3)]]]
  note sell5 = trigger_check_claim [of "order0\<lparr>order_side := Sell\<rparr>" "prices_at (Num 5)"
      "Num 5" "Num 2000", THEN conjunct1, THEN mp, OF conjI [OF b(1) conjI [OF b(2) a(3)]]]
  note at6 = trigger_check_claim [of order0 "prices_at (Num 6)" "Num 6" "Num 2000",
      THEN conjunct1, THEN mp, OF conjI [OF a(1) conjI [OF c(1) c(2)]]]
  have 1: "order_status (checkTrigger (prices_at (Num 5)) (Num 2000) order0) = Triggered"
    using at5 [THEN conjunct2, THEN conjunct2, THEN conjunct2, THEN conjunct2, THEN conjunct2,
        THEN conjunct1, THEN mp, OF a(4)] .
  have 2: "order_status (checkTrigger (prices_at (Num 5)) (Num 2000)
      (order0\<lparr>order_side := Sell\<rparr>)) = Triggered"
    using sell5 [THEN conjunct2, THEN conjunct2, THEN conjunct2, THEN conjunct2, THEN conjunct2,
        THEN conjunct1, THEN mp, OF b(3)] .
  have "order_status (checkTrigger (prices_at (Num 6)) (Num 2000) order0) = Triggered \<longleftrightarrow>
      num_le (Num 6) (triggerPrice order0)"
    using at6 [THEN conjunct1, THEN mp, OF disjI1 [OF c(3)]] .
  then have "order_status (checkTrigger (prices_at (Num 6)) (Num 2000) order0) \<noteq> Triggered"
    using c(4) by simp
  then have "checkTrigger (prices_at (Num 6)) (Num 2000) order0 = order0"
    using at6 [THEN conjunct2, THEN conjunct2, THEN conjunct2, THEN conjunct2, THEN conjunct2,
        THEN conjunct2, THEN mp] by simp
  then have 3: "order_status (checkTrigger (prices_at (Num 6)) (Num 2000) order0) = Pending"
    using a(1) by simp
  have 4: "checkTrigger (prices_at (Num 0)) (Num 2000) order0 = order0"
    using trigger_check_claim [where q = order0 and prices = "prices_at (Num 0)"
        and now = "Num 2000", THEN conjunct2, THEN conjunct1, THEN mp, OF disjI2 [OF d(1)]] .
  have 5: "checkTrigger (\<lambda>name. None) (Num 2000) order0 = order0"
    using trigger_check_claim [where q = order0 and prices = "\<lambda>name. None"
        and now = "Num 2000", THEN conjunct2, THEN conjunct1, THEN mp, OF disjI2 [OF d(2)]] .
  show ?thesis
    using a(1) a(2) a(3) 1 2 3 d(1) 4 d(2) 5 by (intro conjI)
qed

text \<open>
  Claim C9. \<open>xorCipher\<close> with the same key undoes itself, for every key, the empty one
  included. So for every intent whose JSON text the platform reads back as written
  (finite numbers; the hypothesis on \<open>encodeJson\<close> and \<open>decodeJson\<close>), and with a metadata
  block whose length fits the four length bytes, \<open>decryptMockIntent\<close> applied to the
  envelope and the backup key of \<open>encryptIntentMock\<close> returns the object that was
  serialised: the intent's fields, followed by \<open>version\<close> and \<open>createdAt\<close>. In it each of
  the nine fields has the value it has in the intent: intentId and pair its string,
  triggerValue, quantity, slippageBps and expiresAt its number, triggerType the string
  \<open>price_below\<close> or \<open>price_above\<close>, orderType the string \<open>market\<close> or \<open>limit\<close>, side the string
  \<open>buy\<close> or \<open>sell\<close>.
\<close>

theorem mock_roundtrip_claim:
  assumes "decodeJson (encodeJson (intentJson x createdAt)) = Some (intentJson x createdAt)"
    and "length (encodeJson (metadataJson (intentId x) config metaNow)) < 2 ^ 32"
  shows "xorCipher (xorCipher data key) key = data \<and>
         backupKey (encryptIntentMock encodeJson x config key createdAt metaNow verifyNow) =
           Some key \<and>
         decryptMockIntent decodeJson
           (encryptedBytes (encryptIntentMock encodeJson x config key createdAt metaNow verifyNow))
           key = Some (intentJson x createdAt) \<and>
         jsonField (intentJson x createdAt) ''intentId'' = Some (JStr (intentId x)) \<and>
         jsonField (intentJson x createdAt) ''pair'' = Some (JStr (pair x)) \<and>
         jsonField (intentJson x createdAt) ''triggerType'' =
           Some (JStr (case triggerType x of price_below \<Rightarrow> ''price_below''
                       | price_above \<Rightarrow> ''price_above'')) \<and>
         jsonField (intentJson x createdAt) ''triggerValue'' = Some (JNum (triggerValue x)) \<and>
         jsonField (intentJson x createdAt) ''orderType'' =
           Some (JStr (case orderType x of market \<Rightarrow> ''market'' | limit_order \<Rightarrow> ''limit'')) \<and>
         jsonField (intentJson x createdAt) ''side'' =
           Some (JStr (case side x of Buy \<Rightarrow> ''buy'' | Sell \<Rightarrow> ''sell'')) \<and>
         jsonField (intentJson x createdAt) ''quantity'' = Some (JNum (quantity x)) \<and>
         jsonField (intentJson x createdAt) ''slippageBps'' = Some (JNum (slippageBps x)) \<and>
         jsonField (intentJson x createdAt) ''expiresAt'' = Some (JNum (expiresAt x))"
proof (intro conjI)
  show "xorCipher (xorCipher data key) key = data"
    by (rule xorCipher_involution)
  show "backupKey (encryptIntentMock encodeJson x config key createdAt metaNow verifyNow) =
      Some key"
    by (rule backupKey_encryptIntentMock)
  show "decryptMockIntent decodeJson
      (encryptedBytes (encryptIntentMock encodeJson x config key createdAt metaNow verifyNow))
      key = Some (intentJson x createdAt)"
    using assms by (simp add: encryptedBytes_encryptIntentMock decrypt_envelope)
  show "jsonField (intentJson x createdAt) ''intentId'' = Some (JStr (intentId x))"
    "jsonField (intentJson x createdAt) ''pair'' = Some (JStr (pair x))"
    "jsonField (intentJson x createdAt) ''triggerValue'' = Some (JNum (triggerValue x))"
    "jsonField (intentJson x createdAt) ''quantity'' = Some (JNum (quantity x))"
    by (simp_all add: jsonField_def intentJson_def intentFields_def)
  show "jsonField (intentJson x createdAt) ''triggerType'' =
      Some (JStr (case triggerType x of price_below \<Rightarrow> ''price_below''
                  | price_above \<Rightarrow> ''price_above''))"
    "jsonField (intentJson x createdAt) ''orderType'' =
      Some (JStr (case orderType x of market \<Rightarrow> ''market'' | limit_order \<Rightarrow> ''limit''))"
    "jsonField (intentJson x createdAt) ''side'' =
      Some (JStr (case side x of Buy \<Rightarrow> ''buy'' | Sell \<Rightarrow> ''sell''))"
    by (simp_all add: jsonField_def intentJson_def intentFields_def)
  show "jsonField (intentJson x createdAt) ''slippageBps'' = Some (JNum (slippageBps x))"
    "jsonField (intentJson x createdAt) ''expiresAt'' = Some (JNum (expiresAt x))"
    by (simp_all add: jsonField_def intentJson_def intentFields_def split: option.splits)
qed

theorem mock_roundtrip_claim_witness:
  "toy_decode (toy_encode (intentJson intentData0 (Num 1000))) =
     Some (intentJson intentData0 (Num 1000)) \<and>
   length (toy_encode (metadataJson (intentId intentData0) config0 (Num 1001))) < 2 ^ 32 \<and>
   decryptMockIntent toy_decode
     (encryptedBytes (encryptIntentMock toy_encode intentData0 config0 [7, 9] (Num 1000)
        (Num 1001) (Num 1002))) [7, 9] = Some (intentJson intentData0 (Num 1000)) \<and>
   jsonField (intentJson intentData0 (Num 1000)) ''pair'' = Some (JStr ''SUI_USDC'') \<and>
   jsonField (intentJson intentData0 (Num 1000)) ''side'' = Some (JStr ''buy'') \<and>
   jsonField (intentJson (intentData0\<lparr>side := Sell\<rparr>) (Num 1000)) ''side'' =
     Some (JStr ''sell'') \<and>
   xorCipher (xorCipher [123, 125] [7, 9]) [7, 9] = [123, 125]"
proof -
  have 1: "toy_decode (toy_encode (intentJson intentData0 (Num 1000))) =
      Some (intentJson intentData0 (Num 1000))"
    by (simp add: toy_decode_def toy_encode_def)
  have 2: "length (toy_encode (metadataJson (intentId intentData0) config0 (Num 1001))) < 2 ^ 32"
    by (simp add: toy_encode_def)
  have 3: "pair intentData0 = ''SUI_USDC''"
    by (simp add: intentData0_def)
  note t = mock_roundtrip_claim [of toy_decode toy_encode intentData0 "Num 1000" config0
      "Num 1001" "[123, 125]" "[7, 9]" "Num 1002", OF 1 2]
  have 4: "decryptMockIntent toy_decode
     (encryptedBytes (encryptIntentMock toy_encode intentData0 config0 [7, 9] (Num 1000)
        (Num 1001) (Num 1002))) [7, 9] = Some (intentJson intentData0 (Num 1000))"
    using t by blast
  have 5: "jsonField (intentJson intentData0 (Num 1000)) ''pair'' = Some (JStr ''SUI_USDC'')"
    using t unfolding 3 by blast
  have 6: "xorCipher (xorCipher [123, 125] [7, 9]) [7, 9] = [123, 125]"
    using t by blast
  have "jsonField (intentJson intentData0 (Num 1000)) ''side'' =
      Some (JStr (case side intentData0 of Buy \<Rightarrow> ''buy'' | Sell \<Rightarrow> ''sell''))"
    using t [THEN conjunct2, THEN conjunct2, THEN conjunct2, THEN conjunct2, THEN conjunct2,
        THEN conjunct2, THEN conjunct2, THEN conjunct2, THEN conjunct1] .
  then have 7: "jsonField (intentJson intentData0 (Num 1000)) ''side'' = Some (JStr ''buy'')"
    by (simp add: intentData0_def)
  have 8: "jsonField (intentJson (intentData0\<lparr>side := Sell\<rparr>) (Num 1000)) ''side'' =
      Some (JStr ''sell'')"
    by (simp add: jsonField_def intentJson_def intentFields_def intentData0_def)
  show ?thesis
    using 1 2 4 5 7 8 6 by (intro conjI)
qed

text \<open>
  Claim C10. Starting from \<open>init\<close>, after any run of transactions the counter
  \<open>active_intents\<close> is the number of intents whose status is Active or Executing. Claiming
  and recovering do not touch the registry and move an intent between two counted statuses;
  a successful \<open>create_intent\<close> adds one, and a successful \<open>cancel_intent\<close>, \<open>mark_executed\<close>
  or \<open>mark_failed\<close> subtracts one.
\<close>

theorem active_counter_claim:
  "unat (active_intents (registry (run (genesis ctx) txs))) =
     count_active (intents (run (genesis ctx) txs)) \<and>
   (tx_call tx = MarkExecuting k \<or> tx_call tx = ResetToActive k \<longrightarrow>
      registry (exec l tx) = registry l) \<and>
   (\<forall>i' evs. mark_executing i c = Inr (i', evs) \<longrightarrow>
      status i = STATUS_ACTIVE \<and> status i' = STATUS_EXECUTING \<and>
      counted_active i \<and> counted_active i') \<and>
   (\<forall>i'. reset_to_active i = Inr i' \<longrightarrow>
      status i = STATUS_EXECUTING \<and> status i' = STATUS_ACTIVE \<and>
      counted_active i \<and> counted_active i') \<and>
   (\<forall>r' j cx' evs. create_intent r data tt tv ph ex c cx = Inr (r', j, cx', evs) \<longrightarrow>
      unat (active_intents r') = unat (active_intents r) + 1 \<and> counted_active j) \<and>
   (\<forall>r' i' evs. cancel_intent r i c cx = Inr (r', i', evs) \<longrightarrow>
      unat (active_intents r') + 1 = unat (active_intents r) \<and>
      counted_active i \<and> \<not> counted_active i') \<and>
   (\<forall>r' i' evs. mark_executed r i p d c = Inr (r', i', evs) \<longrightarrow>
      unat (active_intents r') + 1 = unat (active_intents r) \<and>
      counted_active i \<and> \<not> counted_active i') \<and>
   (\<forall>r' i' evs. mark_failed r i reason c = Inr (r', i', evs) \<longrightarrow>
      unat (active_intents r') + 1 = unat (active_intents r) \<and>
      counted_active i \<and> \<not> counted_active i')"
proof (intro conjI allI impI)
  show "unat (active_intents (registry (run (genesis ctx) txs))) =
      count_active (intents (run (genesis ctx) txs))"
    using genesis_count by (rule run_count)
next
  assume "tx_call tx = MarkExecuting k \<or> tx_call tx = ResetToActive k"
  then show "registry (exec l tx) = registry l"
    by (auto simp: exec_MarkExecuting exec_ResetToActive split: sum.splits)
next
  fix i' evs
  assume a: "mark_executing i c = Inr (i', evs)"
  then show "status i = STATUS_ACTIVE" "status i' = STATUS_EXECUTING"
    by (auto simp: mark_executing_eq split: if_splits)
  then show "counted_active i" "counted_active i'"
    by (simp_all add: counted_active_simps)
next
  fix i'
  assume a: "reset_to_active i = Inr i'"
  then show "status i = STATUS_EXECUTING" "status i' = STATUS_ACTIVE"
    by (auto simp: reset_to_active_def split: if_splits)
  then show "counted_active i" "counted_active i'"
    by (simp_all add: counted_active_simps)
next
  fix r' j cx' evs
  assume a: "create_intent r data tt tv ph ex c cx = Inr (r', j, cx', evs)"
  then show "unat (active_intents r') = unat (active_intents r) + 1"
    by (auto simp: create_intent_eq unat_succ split: if_splits)
  from a have "status j = STATUS_ACTIVE"
    by (auto simp: create_intent_eq split: if_splits)
  then show "counted_active j"
    by (simp add: counted_active_simps)
next
  fix r' i' evs
  assume a: "cancel_intent r i c cx = Inr (r', i', evs)"
  then show "unat (active_intents r') + 1 = unat (active_intents r)"
    by (auto simp: cancel_intent_eq unat_pred_Suc split: if_splits)
  from a have "status i = STATUS_ACTIVE" "status i' = STATUS_CANCELLED"
    by (auto simp: cancel_intent_eq split: if_splits)
  then show "counted_active i" "\<not> counted_active i'"
    by (simp_all add: counted_active_simps)
next
  fix r' i' evs
  assume a: "mark_executed r i p d c = Inr (r', i', evs)"
  then show "unat (active_intents r') + 1 = unat (active_intents r)"
    by (auto simp: mark_executed_eq unat_pred_Suc split: if_splits)
  from a have "status i = STATUS_EXECUTING" "status i' = STATUS_EXECUTED"
    by (auto simp: mark_executed_eq split: if_splits)
  then show "counted_active i" "\<not> counted_active i'"
    by (simp_all add: counted_active_simps)
next
  fix r' i' evs
  assume a: "mark_failed r i reason c = Inr (r', i', evs)"
  then show "unat (active_intents r') + 1 = unat (active_intents r)"
    by (auto simp: mark_failed_eq unat_pred_Suc split: if_splits)
  from a have "status i = STATUS_EXECUTING" "status i' = STATUS_FAILED"
    by (auto simp: mark_failed_eq split: if_splits)
  then show "counted_active i" "\<not> counted_active i'"
    by (simp_all add: counted_active_simps)
qed

theorem active_counter_claim_witness:
  "run (genesis (ctx_of 0))
     [tx_of 7 1000 (CreateIntent [1, 2, 3] TRIGGER_PRICE_BELOW 100 [9] 5000),
      tx_of 9 2000 (MarkExecuting 0)] =
     ledger1\<lparr>intents := [intent0\<lparr>status := STATUS_EXECUTING\<rparr>]\<rparr> \<and>
   unat (active_intents (registry (ledger1\<lparr>intents := [intent0\<lparr>status := STATUS_EXECUTING\<rparr>]\<rparr>))) = 1 \<and>
   count_active (intents (ledger1\<lparr>intents := [intent0\<lparr>status := STATUS_EXECUTING\<rparr>]\<rparr>)) = 1"
proof -
  have r: "run (genesis (ctx_of 0))
     [tx_of 7 1000 (CreateIntent [1, 2, 3] TRIGGER_PRICE_BELOW 100 [9] 5000),
      tx_of 9 2000 (MarkExecuting 0)] =
     ledger1\<lparr>intents := [intent0\<lparr>status := STATUS_EXECUTING\<rparr>]\<rparr>"
    by (simp add: run_def genesis_create exec_claim_ledger1)
  have u: "unat (active_intents (registry (ledger1\<lparr>intents := [intent0\<lparr>status := STATUS_EXECUTING\<rparr>]\<rparr>))) = 1"
    by (simp add: ledger1_def)
  have "unat (active_intents (registry (run (genesis (ctx_of 0))
     [tx_of 7 1000 (CreateIntent [1, 2, 3] TRIGGER_PRICE_BELOW 100 [9] 5000),
      tx_of 9 2000 (MarkExecuting 0)]))) =
     count_active (intents (run (genesis (ctx_of 0))
     [tx_of 7 1000 (CreateIntent [1, 2, 3] TRIGGER_PRICE_BELOW 100 [9] 5000),
      tx_of 9 2000 (MarkExecuting 0)]))"
    using active_counter_claim by blast
  then show ?thesis
    using r u by simp
qed

end
